theory Spec2Isabelle
  imports Main "HOL-Library.Sublist"
begin

section \<open>JavaScript strings\<close>

text \<open>
  A JavaScript string is a sequence of UTF-16 code units. It is modelled as a
  \<^typ>\<open>string\<close>; one \<^typ>\<open>char\<close> stands for one code unit in the range 0..255.
  Every pattern and literal of the program is ASCII.
\<close>

text \<open>\<^verbatim>\<open>String.prototype.includes\<close>: the argument occurs as a contiguous run.\<close>

fun str_includes :: "string \<Rightarrow> string \<Rightarrow> bool" where
  "str_includes [] sub = (sub = [])"
| "str_includes (c # cs) sub = (prefix sub (c # cs) \<or> str_includes cs sub)"

text \<open>\<^verbatim>\<open>String.prototype.endsWith\<close>.\<close>

definition endsWith :: "string \<Rightarrow> string \<Rightarrow> bool" where
  "endsWith s suf = suffix suf s"

section \<open>Security validation (security/validator.ts)\<close>

text \<open>The fields of a parsed \<^verbatim>\<open>URL\<close> object that the program reads.\<close>

record URL =
  hostname :: string
  protocol :: string
  origin :: string

record SecurityConfig =
  allowedDomains :: "string list option"
  blockedDomains :: "string list option"
  maxExecutionTime :: "nat option"
  maxMemoryUsage :: "nat option"
  enableSandbox :: "bool option"

text \<open>The object \<^verbatim>\<open>{ valid: boolean; error?: string }\<close> every validator returns.\<close>

record ValidationResult =
  valid :: bool
  error :: "string option"

definition accept :: ValidationResult where
  "accept = \<lparr>valid = True, error = None\<rparr>"

definition reject :: "string \<Rightarrow> ValidationResult" where
  "reject msg = \<lparr>valid = False, error = Some msg\<rparr>"

text \<open>
  \<^verbatim>\<open>validateUrl\<close>. The constructor \<^verbatim>\<open>new URL(url)\<close> belongs to the JavaScript
  runtime, not to the program: it is the parameter \<open>newURL\<close>, which either throws
  (\<open>Inl\<close>, with the text the thrown error prints as) or yields the parsed object.
  The order of the three checks is the program's: blocked domains, allowed
  domains, protocol.
\<close>

definition isBlocked :: "SecurityConfig \<Rightarrow> string \<Rightarrow> bool" where
  "isBlocked config host =
     (case blockedDomains config of
        None \<Rightarrow> False
      | Some bs \<Rightarrow> list_ex (\<lambda>blockedDomain. str_includes host blockedDomain) bs)"

definition isAllowed :: "string list \<Rightarrow> string \<Rightarrow> bool" where
  "isAllowed ds host = list_ex (\<lambda>domain. str_includes host domain) ds"

definition allowedProtocols :: "string list" where
  "allowedProtocols = [''http:'', ''https:'']"

definition validateUrl ::
  "(string \<Rightarrow> string + URL) \<Rightarrow> SecurityConfig \<Rightarrow> string \<Rightarrow> ValidationResult" where
  "validateUrl newURL config url =
     (case newURL url of
        Inl err \<Rightarrow> reject (''Invalid URL format: '' @ err)
      | Inr urlObj \<Rightarrow>
          if isBlocked config (hostname urlObj)
          then reject (''Domain '' @ hostname urlObj @ '' is blocked'')
          else if (case allowedDomains config of
                     None \<Rightarrow> False
                   | Some ds \<Rightarrow> 0 < length ds \<and> \<not> isAllowed ds (hostname urlObj))
          then reject (''Domain '' @ hostname urlObj @ '' is not in allowed list'')
          else if \<not> List.member allowedProtocols (protocol urlObj)
          then reject (''Protocol '' @ protocol urlObj @ '' is not allowed'')
          else accept)"

text \<open>
  What \<^verbatim>\<open>new URL\<close> returns on the four inputs used in the closed theorems
  below (WHATWG URL parsing). No theorem relies on its value anywhere else.
\<close>

definition sampleURL :: "string \<Rightarrow> string + URL" where
  "sampleURL s =
     (if s = ''ftp://example.com/x''
      then Inr \<lparr>hostname = ''example.com'', protocol = ''ftp:'', origin = ''ftp://example.com''\<rparr>
      else if s = ''https://example.com/'' \<or> s = ''https://example.com/products/widget''
      then Inr \<lparr>hostname = ''example.com'', protocol = ''https:'', origin = ''https://example.com''\<rparr>
      else if s = ''javascript:alert(1)''
      then Inr \<lparr>hostname = '''', protocol = ''javascript:'', origin = ''null''\<rparr>
      else Inl ''TypeError: Invalid URL'')"

definition exampleOnly :: SecurityConfig where
  "exampleOnly = \<lparr>allowedDomains = Some [''example.com''], blockedDomains = Some [],
     maxExecutionTime = None, maxMemoryUsage = None, enableSandbox = None\<rparr>"

section \<open>Regular expressions\<close>

text \<open>
  The program's regular expressions are sequences of literal characters and
  starred character classes (\<^verbatim>\<open>\s*\<close>, \<^verbatim>\<open>[^>]*\<close>, \<^verbatim>\<open>(.*?)\<close>), some of
  them capture groups. \<open>rmatch\<close> is the backtracking matcher of the language
  standard at one start position: a greedy star first tries to take one more
  character, a lazy star first tries to stop. It returns the captures and the
  rest of the input after the match.
\<close>

definition isWhiteSpace :: "char \<Rightarrow> bool" where
  "isWhiteSpace c =
     (c \<in> {CHR 0x09, CHR 0x0A, CHR 0x0B, CHR 0x0C, CHR 0x0D, CHR 0x20, CHR 0xA0})"

definition isLineTerminator :: "char \<Rightarrow> bool" where
  "isLineTerminator c = (c \<in> {CHR 0x0A, CHR 0x0D})"

text \<open>
  Canonicalisation under the \<^verbatim>\<open>i\<close> flag (without \<^verbatim>\<open>u\<close>) is upper-casing; a code
  unit of 128 or more never canonicalises to an ASCII one, so against the
  program's ASCII patterns only the ASCII letters matter.
\<close>

definition canonicalize :: "char \<Rightarrow> char" where
  "canonicalize c =
     (case map_of (zip ''abcdefghijklmnopqrstuvwxyz'' ''ABCDEFGHIJKLMNOPQRSTUVWXYZ'') c of
        Some u \<Rightarrow> u
      | None \<Rightarrow> c)"

datatype cclass = Dot | NotChar char | Space

datatype quant = Greedy | Lazy

text \<open>\<open>Star q cap cl\<close>: the class \<open>cl\<close> starred; \<open>cap\<close> when it is a capture group.\<close>

datatype ritem = Lit char | Star quant bool cclass

fun in_class :: "cclass \<Rightarrow> char \<Rightarrow> bool" where
  "in_class Dot c = (\<not> isLineTerminator c)"
| "in_class (NotChar d) c = (c \<noteq> d)"
| "in_class Space c = isWhiteSpace c"

definition char_eq :: "bool \<Rightarrow> char \<Rightarrow> char \<Rightarrow> bool" where
  "char_eq ic c x = (if ic then canonicalize x = canonicalize c else x = c)"

fun cap_cons :: "char \<Rightarrow> string list \<Rightarrow> string list" where
  "cap_cons x [] = [[x]]"
| "cap_cons x (c # cs) = (x # c) # cs"

fun cap_open :: "bool \<Rightarrow> string list \<times> string \<Rightarrow> string list \<times> string" where
  "cap_open cap (caps, rest) = (if cap then [] # caps else caps, rest)"

fun cap_extend :: "bool \<Rightarrow> char \<Rightarrow> string list \<times> string \<Rightarrow> string list \<times> string" where
  "cap_extend cap x (caps, rest) = (if cap then cap_cons x caps else caps, rest)"

fun rmatch :: "bool \<Rightarrow> ritem list \<Rightarrow> string \<Rightarrow> (string list \<times> string) option" where
  "rmatch ic [] s = Some ([], s)"
| "rmatch ic (Lit c # r) [] = None"
| "rmatch ic (Lit c # r) (x # xs) = (if char_eq ic c x then rmatch ic r xs else None)"
| "rmatch ic (Star q cap cl # r) [] = map_option (cap_open cap) (rmatch ic r [])"
| "rmatch ic (Star Greedy cap cl # r) (x # xs) =
     (if in_class cl x
      then (case rmatch ic (Star Greedy cap cl # r) xs of
              Some m \<Rightarrow> Some (cap_extend cap x m)
            | None \<Rightarrow> map_option (cap_open cap) (rmatch ic r (x # xs)))
      else map_option (cap_open cap) (rmatch ic r (x # xs)))"
| "rmatch ic (Star Lazy cap cl # r) (x # xs) =
     (case rmatch ic r (x # xs) of
        Some m \<Rightarrow> Some (cap_open cap m)
      | None \<Rightarrow>
          if in_class cl x
          then map_option (cap_extend cap x) (rmatch ic (Star Lazy cap cl # r) xs)
          else None)"

text \<open>\<^verbatim>\<open>RegExp.prototype.test\<close> without the \<^verbatim>\<open>g\<close> flag: a match at some start position.\<close>

fun regex_test :: "bool \<Rightarrow> ritem list \<Rightarrow> string \<Rightarrow> bool" where
  "regex_test ic p [] = (rmatch ic p [] \<noteq> None)"
| "regex_test ic p (x # xs) =
     (if rmatch ic p (x # xs) \<noteq> None then True else regex_test ic p xs)"

text \<open>
  \<^verbatim>\<open>String.prototype.replace\<close> with a \<^verbatim>\<open>g\<close> regular expression and a replacement
  template: the matches are found left to right, each search starting where the
  last match ended (one code unit further after an empty match), and each is
  replaced by the template with \<^verbatim>\<open>$1\<close>, \<^verbatim>\<open>$2\<close> filled in.
\<close>

datatype titem = Txt string | Ref1 | Ref2

fun expand1 :: "string list \<Rightarrow> titem \<Rightarrow> string" where
  "expand1 caps (Txt s) = s"
| "expand1 caps Ref1 = (case caps of c1 # _ \<Rightarrow> c1 | _ \<Rightarrow> ''$1'')"
| "expand1 caps Ref2 = (case caps of _ # c2 # _ \<Rightarrow> c2 | _ \<Rightarrow> ''$2'')"

definition expand :: "titem list \<Rightarrow> string list \<Rightarrow> string" where
  "expand t caps = concat (map (expand1 caps) t)"

fun replace_g :: "bool \<Rightarrow> ritem list \<Rightarrow> titem list \<Rightarrow> string \<Rightarrow> string" where
  "replace_g ic p t [] =
     (case rmatch ic p [] of None \<Rightarrow> [] | Some (caps, rest) \<Rightarrow> expand t caps)"
| "replace_g ic p t (x # xs) =
     (case rmatch ic p (x # xs) of
        None \<Rightarrow> x # replace_g ic p t xs
      | Some (caps, rest) \<Rightarrow>
          expand t caps @
          (if length rest < length (x # xs) then replace_g ic p t rest
           else x # replace_g ic p t xs))"

text \<open>\<^verbatim>\<open>String.prototype.trim\<close>.\<close>

definition trim :: "string \<Rightarrow> string" where
  "trim s = rev (dropWhile isWhiteSpace (rev (dropWhile isWhiteSpace s)))"

definition lit :: "string \<Rightarrow> ritem list" where
  "lit s = map Lit s"

abbreviation ws :: ritem where
  "ws \<equiv> Star Greedy False Space"

abbreviation NL :: char where
  "NL \<equiv> CHR 0x0A"

abbreviation DQ :: char where
  "DQ \<equiv> CHR 0x22"

text \<open>
  The language of a pattern, without priorities: \<open>lang ic p w\<close> when the whole
  of \<open>w\<close> is matched by \<open>p\<close>. It is the reference the matcher is compared with.
\<close>

fun lang :: "bool \<Rightarrow> ritem list \<Rightarrow> string \<Rightarrow> bool" where
  "lang ic [] w = (w = [])"
| "lang ic (Lit c # r) [] = False"
| "lang ic (Lit c # r) (x # xs) = (char_eq ic c x \<and> lang ic r xs)"
| "lang ic (Star q cap cl # r) [] = lang ic r []"
| "lang ic (Star q cap cl # r) (x # xs) =
     (lang ic r (x # xs) \<or> (in_class cl x \<and> lang ic (Star q cap cl # r) xs))"

definition contains_match :: "bool \<Rightarrow> ritem list \<Rightarrow> string \<Rightarrow> bool" where
  "contains_match ic p s = (\<exists>pre w post. s = pre @ w @ post \<and> lang ic p w)"

section \<open>Joi string schemas\<close>

text \<open>
  The validators build their schemas with the Joi library:
  \<^verbatim>\<open>Joi.string().max(n)\<close>, optionally \<^verbatim>\<open>.pattern(re)\<close> or \<^verbatim>\<open>.allow('')\<close>, and
  \<^verbatim>\<open>.required()\<close>. On a string value Joi accepts the empty string only when it is
  allowed explicitly, reports it as \<^verbatim>\<open>string.empty\<close> otherwise, and then checks
  the rules in the order they were added, stopping at the first failure.
  The length is the number of code units.
\<close>

datatype joi_error = StringEmpty | StringMax nat | StringPattern string

text \<open>A pattern rule keeps the expression's test and its source text, which Joi prints.\<close>

record joi_string =
  joi_max :: nat
  joi_pattern :: "((string \<Rightarrow> bool) \<times> string) option"
  joi_allow_empty :: bool

definition joi_validate :: "joi_string \<Rightarrow> string \<Rightarrow> joi_error option" where
  "joi_validate schema v =
     (if v = [] then (if joi_allow_empty schema then None else Some StringEmpty)
      else if joi_max schema < length v then Some (StringMax (joi_max schema))
      else (case joi_pattern schema of
              None \<Rightarrow> None
            | Some (matches, source) \<Rightarrow>
                if matches v then None else Some (StringPattern source)))"

text \<open>Decimal digits of a number, as a template prints the limit.\<close>

function show_nat :: "nat \<Rightarrow> string" where
  "show_nat n =
     (if n < 10 then [''0123456789'' ! n]
      else show_nat (n div 10) @ [''0123456789'' ! (n mod 10)])"
  by pat_completeness auto
termination
  by (relation "measure id") auto

declare show_nat.simps [simp del]

text \<open>The text of \<^verbatim>\<open>error.message\<close> for a value without a label (Joi 17).\<close>

fun joi_message :: "string \<Rightarrow> joi_error \<Rightarrow> string" where
  "joi_message v StringEmpty = [DQ] @ ''value'' @ [DQ] @ '' is not allowed to be empty''"
| "joi_message v (StringMax n) =
     [DQ] @ ''value'' @ [DQ] @ '' length must be less than or equal to '' @ show_nat n
       @ '' characters long''"
| "joi_message v (StringPattern source) =
     [DQ] @ ''value'' @ [DQ] @ '' with value '' @ [DQ] @ v @ [DQ]
       @ '' fails to match the required pattern: '' @ source"

section \<open>The selector, script and text validators\<close>

text \<open>The class \<^verbatim>\<open>[a-zA-Z0-9\s\-_\[\]='".:>#,\(\)]\<close> of the selector schema.\<close>

definition selectorChar :: "char \<Rightarrow> bool" where
  "selectorChar c =
     (c \<in> set ''abcdefghijklmnopqrstuvwxyzABCDEFGHIJKLMNOPQRSTUVWXYZ0123456789''
      \<or> isWhiteSpace c
      \<or> c \<in> set ''-_[]='' \<or> c = CHR 0x27 \<or> c = DQ \<or> c \<in> set ''.:>#,()'')"

text \<open>\<^verbatim>\<open>/^[...]+$/\<close>: one or more characters, all of the class.\<close>

definition selectorPattern :: "string \<Rightarrow> bool" where
  "selectorPattern s = (s \<noteq> [] \<and> list_all selectorChar s)"

abbreviation BS :: char where
  "BS \<equiv> CHR 0x5C"

definition selectorPatternSource :: string where
  "selectorPatternSource =
     ''/^[a-zA-Z0-9'' @ [BS] @ ''s'' @ [BS] @ ''-_'' @ [BS] @ ''['' @ [BS] @ '']='' @ [CHR 0x27, DQ]
       @ ''.:>#,'' @ [BS] @ ''('' @ [BS] @ '')]+$/''"

definition dangerousSelectorPatterns :: "ritem list list" where
  "dangerousSelectorPatterns =
     [lit ''javascript:'', lit ''expression('', lit ''script:'', lit ''vbscript:'',
      lit ''onload='', lit ''onerror='']"

definition validateSelector :: "string \<Rightarrow> ValidationResult" where
  "validateSelector selector =
     (case joi_validate
             \<lparr>joi_max = 1000, joi_pattern = Some (selectorPattern, selectorPatternSource),
               joi_allow_empty = False\<rparr>
             selector of
        Some err \<Rightarrow> reject (''Invalid selector: '' @ joi_message selector err)
      | None \<Rightarrow>
          if list_ex (\<lambda>pattern. regex_test True pattern selector) dangerousSelectorPatterns
          then reject ''Selector contains potentially dangerous content''
          else accept)"

definition dangerousScriptPatterns :: "ritem list list" where
  "dangerousScriptPatterns =
     [lit ''eval'' @ [ws, Lit CHR ''(''],
      lit ''Function'' @ [ws, Lit CHR ''(''],
      lit ''setTimeout'' @ [ws, Lit CHR ''(''],
      lit ''setInterval'' @ [ws, Lit CHR ''(''],
      lit ''document.write'',
      lit ''innerHTML'' @ [ws, Lit CHR ''=''],
      lit ''outerHTML'' @ [ws, Lit CHR ''=''],
      lit ''location'' @ [ws, Lit CHR ''=''],
      lit ''window'' @ [ws, Lit CHR ''.''],
      lit ''document.cookie'',
      lit ''localStorage'',
      lit ''sessionStorage'']"

definition validateScript :: "string \<Rightarrow> ValidationResult" where
  "validateScript script =
     (case joi_validate \<lparr>joi_max = 10000, joi_pattern = None, joi_allow_empty = False\<rparr>
             script of
        Some err \<Rightarrow> reject (''Invalid script: '' @ joi_message script err)
      | None \<Rightarrow>
          if list_ex (\<lambda>pattern. regex_test True pattern script) dangerousScriptPatterns
          then reject ''Script contains potentially dangerous operations''
          else accept)"

definition validateInputText :: "string \<Rightarrow> ValidationResult" where
  "validateInputText text =
     (case joi_validate \<lparr>joi_max = 10000, joi_pattern = None, joi_allow_empty = True\<rparr>
             text of
        Some err \<Rightarrow> reject (''Invalid input text: '' @ joi_message text err)
      | None \<Rightarrow> accept)"

section \<open>Markdown conversion (browser/manager.ts)\<close>

text \<open>\<^verbatim>\<open>/<name[^>]*>(.*?)<\/name>/gi\<close>.\<close>

definition tagPair :: "string \<Rightarrow> ritem list" where
  "tagPair name =
     lit (''<'' @ name) @ [Star Greedy False (NotChar CHR ''>''), Lit CHR ''>'',
       Star Lazy True Dot] @ lit (''</'' @ name @ ''>'')"

text \<open>\<^verbatim>\<open>/<a[^>]*href="([^"]*)"[^>]*>(.*?)<\/a>/gi\<close>.\<close>

definition anchorPattern :: "ritem list" where
  "anchorPattern =
     lit ''<a'' @ [Star Greedy False (NotChar CHR ''>'')] @ lit ''href='' @
     [Lit DQ, Star Greedy True (NotChar DQ), Lit DQ, Star Greedy False (NotChar CHR ''>''),
      Lit CHR ''>'', Star Lazy True Dot] @ lit ''</a>''"

definition htmlToMarkdown :: "string \<Rightarrow> string" where
  "htmlToMarkdown html =
     trim
      (replace_g False [Lit NL, ws, Lit NL, ws, Lit NL] [Txt [NL, NL]]
      (replace_g False [Lit CHR ''<'', Star Greedy False (NotChar CHR ''>''), Lit CHR ''>'']
         [Txt []]
      (replace_g True (tagPair ''code'') [Txt ''`'', Ref1, Txt ''`'']
      (replace_g True (tagPair ''i'') [Txt ''*'', Ref1, Txt ''*'']
      (replace_g True (tagPair ''em'') [Txt ''*'', Ref1, Txt ''*'']
      (replace_g True (tagPair ''b'') [Txt ''**'', Ref1, Txt ''**'']
      (replace_g True (tagPair ''strong'') [Txt ''**'', Ref1, Txt ''**'']
      (replace_g True anchorPattern [Txt ''['', Ref2, Txt ''](''  , Ref1, Txt '')'']
      (replace_g True (tagPair ''p'') [Ref1, Txt [NL, NL]]
      (replace_g True (tagPair ''h3'') [Txt ''### '', Ref1, Txt [NL, NL]]
      (replace_g True (tagPair ''h2'') [Txt ''## '', Ref1, Txt [NL, NL]]
      (replace_g True (tagPair ''h1'') [Txt ''# '', Ref1, Txt [NL, NL]] html))))))))))))"

section \<open>The browser as the manager sees it (browser/manager.ts)\<close>

text \<open>
  JavaScript's \<^verbatim>\<open>a || b\<close> on an optional string and on an optional number: the
  empty string, zero and a missing value are falsy.
\<close>

fun str_or :: "string option \<Rightarrow> string \<Rightarrow> string" where
  "str_or None d = d"
| "str_or (Some s) d = (if s = [] then d else s)"

fun num_or :: "int option \<Rightarrow> int \<Rightarrow> int" where
  "num_or None d = d"
| "num_or (Some n) d = (if n = 0 then d else n)"

fun truthy :: "string option \<Rightarrow> bool" where
  "truthy None = False"
| "truthy (Some s) = (s \<noteq> [])"

text \<open>Numbers are integers here: the program only tests them against zero and passes them on.\<close>

record Size =
  width :: int
  height :: int

record Clip = Size +
  clip_x :: int
  clip_y :: int

record BrowserConfig =
  headless :: "bool option"
  viewport :: "Size option"
  timeout :: "int option"
  userDataDir :: "string option"
  args :: "string list option"

text \<open>
  Playwright's objects (browser, context, page) are known by their identity:
  a handle. The object a call creates gets the position of that call in the
  history of calls as its handle, so no two creations share one.
\<close>

type_synonym handle = nat

record BrowserSession =
  session_id :: string
  browserContext :: handle
  page :: handle
  createdAt :: nat
  lastActivity :: nat
  config :: BrowserConfig

text \<open>The options an operation receives (\<^verbatim>\<open>options: any\<close>): every field may be missing.\<close>

record InnerOptions =
  delay :: "int option"
  force :: "bool option"
  inner_timeout :: "int option"

record Options =
  waitUntil :: "string option"
  opt_timeout :: "int option"
  selector :: "string option"
  format :: "string option"
  fullPage :: "bool option"
  quality :: "int option"
  clip :: "Clip option"
  waitCondition :: "string option"
  waitTimeout :: "int option"
  additionalDelay :: "int option"
  removeScripts :: "bool option"
  removeStyles :: "bool option"
  action :: "string option"
  input_value :: "string option"
  options :: "InnerOptions option"

definition noOptions :: Options where
  "noOptions = \<lparr>waitUntil = None, opt_timeout = None, selector = None, format = None,
     fullPage = None, quality = None, clip = None, waitCondition = None, waitTimeout = None,
     additionalDelay = None, removeScripts = None, removeStyles = None, action = None,
     input_value = None, options = None\<rparr>"

record ShotOptions =
  shot_type :: string
  shot_fullPage :: bool
  shot_quality :: "int option"
  shot_clip :: "Clip option"

text \<open>
  The calls the manager makes on the browser. A locator is known by its page
  and selector. The private helpers \<^verbatim>\<open>initializeStealthMode\<close>,
  \<^verbatim>\<open>simulateHumanBehavior\<close>, \<^verbatim>\<open>humanDelay\<close>, \<^verbatim>\<open>waitForWordPressReady\<close> and
  \<^verbatim>\<open>debugPageState\<close> catch whatever they throw and return nothing; each is one
  \<open>Helper\<close> entry. \<open>Sleep\<close> is a timer. Logging is left out.
\<close>

datatype call =
    Launch bool "string list"
  | NewContext handle Size
  | NewPage handle
  | Goto handle string string int
  | Title handle
  | WaitForLoadState handle string int
  | WaitForSelector handle string int
  | RaceForSelectors handle "string list" int
  | PageTextContent handle string
  | PageContent handle
  | Evaluate handle string
  | EvaluateScript handle string "string list"
  | Locator handle string
  | WaitFor handle string int
  | Click handle string "bool option" "int option"
  | Fill handle string string
  | SelectOption handle string string
  | Hover handle string
  | Focus handle string
  | Clear handle string
  | TagName handle string
  | TextContent handle string
  | InnerHTML handle string
  | InputValue handle string
  | Screenshot handle "string option" ShotOptions
  | ContextClose handle
  | BrowserClose handle
  | Helper string handle
  | HumanDelay int int
  | Sleep int

text \<open>
  The manager's fields that change: the browser (or null), the session map in
  insertion order, and the history of calls made so far.
\<close>

record State =
  browser :: "handle option"
  sessions :: "(string \<times> BrowserSession) list"
  trace :: "call list"

text \<open>
  Everything the manager is given. \<open>browserConfig\<close> and \<open>securityConfig\<close> are the
  constructor's arguments. The rest is the outside world, each answer a function
  of the history of calls: \<open>act\<close> tells whether a call without a result throws
  (and with what message), \<open>ask\<close> gives a call's string result or the message
  it throws with (\<open>ask_nullable\<close> when the result may be null), \<open>gotoStatus\<close> the response status of a navigation,
  \<open>pageUrl\<close> the page's current URL, \<open>clock\<close> the time, \<open>randomSuffix\<close> the random
  part of a generated identifier; \<open>urlParser\<close>, \<open>toBase64\<close> and \<open>toISOString\<close> are
  the runtime's.
\<close>

record Env =
  browserConfig :: BrowserConfig
  securityConfig :: SecurityConfig
  urlParser :: "string \<Rightarrow> string + URL"
  act :: "call list \<Rightarrow> call \<Rightarrow> string option"
  ask :: "call list \<Rightarrow> call \<Rightarrow> string + string"
  ask_nullable :: "call list \<Rightarrow> call \<Rightarrow> string + string option"
  gotoStatus :: "call list \<Rightarrow> call \<Rightarrow> string + int option"
  pageUrl :: "call list \<Rightarrow> handle \<Rightarrow> string"
  clock :: "call list \<Rightarrow> nat"
  randomSuffix :: "call list \<Rightarrow> string"
  toBase64 :: "string \<Rightarrow> string"
  toISOString :: "nat \<Rightarrow> string"

text \<open>An operation either throws to its caller or returns.\<close>

datatype 'a outcome = Thrown string | Returned 'a

definition record_call :: "call \<Rightarrow> State \<Rightarrow> State" where
  "record_call c st = st\<lparr>trace := trace st @ [c]\<rparr>"

definition do_act :: "Env \<Rightarrow> call \<Rightarrow> State \<Rightarrow> string option \<times> State" where
  "do_act env c st = (act env (trace st) c, record_call c st)"

definition do_ask :: "Env \<Rightarrow> call \<Rightarrow> State \<Rightarrow> (string + string) \<times> State" where
  "do_ask env c st = (ask env (trace st) c, record_call c st)"

definition do_ask_nullable ::
  "Env \<Rightarrow> call \<Rightarrow> State \<Rightarrow> (string + string option) \<times> State" where
  "do_ask_nullable env c st = (ask_nullable env (trace st) c, record_call c st)"

definition do_goto :: "Env \<Rightarrow> call \<Rightarrow> State \<Rightarrow> (string + int option) \<times> State" where
  "do_goto env c st = (gotoStatus env (trace st) c, record_call c st)"

text \<open>The JavaScript \<^verbatim>\<open>Map\<close>: \<^verbatim>\<open>set\<close> keeps the place of a key that is present.\<close>

fun map_set :: "'k \<Rightarrow> 'v \<Rightarrow> ('k \<times> 'v) list \<Rightarrow> ('k \<times> 'v) list" where
  "map_set k v [] = [(k, v)]"
| "map_set k v (p # ps) = (if fst p = k then (k, v) # ps else p # map_set k v ps)"

definition map_delete :: "'k \<Rightarrow> ('k \<times> 'v) list \<Rightarrow> ('k \<times> 'v) list" where
  "map_delete k m = filter (\<lambda>p. fst p \<noteq> k) m"

subsection \<open>Sessions\<close>

definition launchArgs :: "BrowserConfig \<Rightarrow> string list" where
  "launchArgs cfg =
     [''--no-sandbox'', ''--disable-setuid-sandbox'', ''--disable-dev-shm-usage'',
      ''--disable-blink-features=AutomationControlled'', ''--no-first-run'',
      ''--disable-default-apps'',
      ''--user-agent=Mozilla/5.0 (Windows NT 10.0; Win64; x64) AppleWebKit/537.36 (KHTML, like Gecko) Chrome/120.0.0.0 Safari/537.36'']
     @ (case args cfg of None \<Rightarrow> [] | Some extra \<Rightarrow> extra)"

definition initialize :: "Env \<Rightarrow> State \<Rightarrow> unit outcome \<times> State" where
  "initialize env st =
     (case do_act env
             (Launch (case headless (browserConfig env) of None \<Rightarrow> False | Some h \<Rightarrow> h)
                (launchArgs (browserConfig env))) st of
        (Some e, st') \<Rightarrow> (Thrown (''Browser initialization failed: '' @ e), st')
      | (None, st') \<Rightarrow> (Returned (), st'\<lparr>browser := Some (length (trace st))\<rparr>))"

definition generateSessionId :: "Env \<Rightarrow> State \<Rightarrow> string" where
  "generateSessionId env st =
     ''session_'' @ show_nat (clock env (trace st)) @ ''_'' @ randomSuffix env (trace st)"

definition defaultViewport :: Size where
  "defaultViewport = \<lparr>width = 1280, height = 720\<rparr>"

text \<open>
  \<^verbatim>\<open>createSession\<close>. The launch, when there is no browser yet, is outside the
  \<^verbatim>\<open>try\<close>; the context and the page are created inside it.
\<close>

definition createSession :: "Env \<Rightarrow> string option \<Rightarrow> State \<Rightarrow> string outcome \<times> State" where
  "createSession env sessionId st =
     (case (if browser st = None then initialize env st else (Returned (), st)) of
        (Thrown e, st1) \<Rightarrow> (Thrown e, st1)
      | (Returned u, st1) \<Rightarrow>
          let sid = (if truthy sessionId then the sessionId else generateSessionId env st1) in
          (case browser st1 of
             None \<Rightarrow>
               (Thrown (''Session creation failed: Cannot read properties of null (reading ''
                  @ [CHR 0x27] @ ''newContext'' @ [CHR 0x27] @ '')''), st1)
           | Some b \<Rightarrow>
               (case do_act env
                       (NewContext b
                          (case viewport (browserConfig env) of
                             None \<Rightarrow> defaultViewport | Some v \<Rightarrow> v)) st1 of
                  (Some e, st2) \<Rightarrow> (Thrown (''Session creation failed: '' @ e), st2)
                | (None, st2) \<Rightarrow>
                    (case do_act env (NewPage (length (trace st1))) st2 of
                       (Some e, st3) \<Rightarrow> (Thrown (''Session creation failed: '' @ e), st3)
                     | (None, st3) \<Rightarrow>
                         let st4 = record_call
                                     (Helper ''initializeStealthMode'' (length (trace st2))) st3;
                             session = \<lparr>session_id = sid, browserContext = length (trace st1),
                                        page = length (trace st2),
                                        createdAt = clock env (trace st4),
                                        lastActivity = clock env (trace st4),
                                        config = browserConfig env\<rparr>
                         in (Returned sid,
                             st4\<lparr>sessions := map_set sid session (sessions st4)\<rparr>)))))"

text \<open>
  \<^verbatim>\<open>getSession\<close>. A known session is touched in place (its \<^verbatim>\<open>lastActivity\<close>)
  and returned; otherwise one is created and looked up. The lookup after the
  creation always finds the session; were the map to lack it, the caller would
  get \<^verbatim>\<open>undefined\<close>.
\<close>

definition getSession ::
  "Env \<Rightarrow> string option \<Rightarrow> State \<Rightarrow> BrowserSession outcome \<times> State" where
  "getSession env sessionId st =
     (case (if truthy sessionId then map_of (sessions st) (the sessionId) else None) of
        Some session \<Rightarrow>
          let touched = session\<lparr>lastActivity := clock env (trace st)\<rparr> in
          (Returned touched, st\<lparr>sessions := map_set (the sessionId) touched (sessions st)\<rparr>)
      | None \<Rightarrow>
          (case createSession env sessionId st of
             (Thrown e, st1) \<Rightarrow> (Thrown e, st1)
           | (Returned newSessionId, st1) \<Rightarrow>
               (case map_of (sessions st1) newSessionId of
                  Some session \<Rightarrow> (Returned session, st1)
                | None \<Rightarrow> (Thrown ''undefined'', st1))))"

text \<open>\<^verbatim>\<open>closeSession\<close>.\<close>

definition closeSession :: "Env \<Rightarrow> string \<Rightarrow> State \<Rightarrow> unit outcome \<times> State" where
  "closeSession env sessionId st =
     (case map_of (sessions st) sessionId of
        None \<Rightarrow> (Returned (), st)
      | Some session \<Rightarrow>
          (case do_act env (ContextClose (browserContext session)) st of
             (Some e, st1) \<Rightarrow> (Thrown e, st1)
           | (None, st1) \<Rightarrow>
               (Returned (), st1\<lparr>sessions := map_delete sessionId (sessions st1)\<rparr>)))"

text \<open>
  \<^verbatim>\<open>cleanup\<close>. The loop over the sessions awaits each \<^verbatim>\<open>context.close()\<close> with
  no handler: the first close that throws ends \<^verbatim>\<open>cleanup\<close> there.
\<close>

fun closeAll :: "Env \<Rightarrow> (string \<times> BrowserSession) list \<Rightarrow> State \<Rightarrow> unit outcome \<times> State" where
  "closeAll env [] st = (Returned (), st)"
| "closeAll env (p # ps) st =
     (case do_act env (ContextClose (browserContext (snd p))) st of
        (Some e, st1) \<Rightarrow> (Thrown e, st1)
      | (None, st1) \<Rightarrow> closeAll env ps st1)"

definition cleanup :: "Env \<Rightarrow> State \<Rightarrow> unit outcome \<times> State" where
  "cleanup env st =
     (case closeAll env (sessions st) st of
        (Thrown e, st1) \<Rightarrow> (Thrown e, st1)
      | (Returned u, st1) \<Rightarrow>
          let st2 = st1\<lparr>sessions := []\<rparr> in
          (case browser st2 of
             None \<Rightarrow> (Returned (), st2)
           | Some b \<Rightarrow>
               (case do_act env (BrowserClose b) st2 of
                  (Some e, st3) \<Rightarrow> (Thrown e, st3)
                | (None, st3) \<Rightarrow> (Returned (), st3\<lparr>browser := None\<rparr>))))"

subsection \<open>Navigation\<close>

datatype NavigationResult = NavSuccess string string "int option" | NavFailure string string

text \<open>The message of \<^verbatim>\<open>new Error(validation.error)\<close>.\<close>

definition error_text :: "ValidationResult \<Rightarrow> string" where
  "error_text v = (case error v of None \<Rightarrow> [] | Some e \<Rightarrow> e)"

text \<open>\<^verbatim>\<open>options.timeout || this.config.timeout || 30000\<close>.\<close>

definition navTimeout :: "Env \<Rightarrow> Options \<Rightarrow> int" where
  "navTimeout env opts = num_or (opt_timeout opts) (num_or (timeout (browserConfig env)) 30000)"

definition visitsHomepageFirst :: "string \<Rightarrow> bool" where
  "visitsHomepageFirst url = (str_includes url ''/products/'' \<and> \<not> endsWith url ''/'')"

text \<open>
  The \<^verbatim>\<open>try\<close> block of \<^verbatim>\<open>navigate\<close>: whatever is thrown inside becomes a
  \<^verbatim>\<open>{success: false, url, error}\<close> result. \<open>homepageFirst\<close> is its first part, the
  visit of the site's origin before a product page.
\<close>

definition homepageFirst ::
  "Env \<Rightarrow> BrowserSession \<Rightarrow> string \<Rightarrow> Options \<Rightarrow> State \<Rightarrow> string option \<times> State" where
  "homepageFirst env session url opts st =
     (if visitsHomepageFirst url
      then (case urlParser env url of
              Inl e \<Rightarrow> (Some e, st)
            | Inr urlObj \<Rightarrow>
                (case do_goto env
                        (Goto (page session) (origin urlObj) ''domcontentloaded''
                           (navTimeout env opts)) st of
                   (Inl e, st1) \<Rightarrow> (Some e, st1)
                 | (Inr response, st1) \<Rightarrow> (None, record_call (HumanDelay 800 1500) st1)))
      else (None, st))"

definition navigateTry ::
  "Env \<Rightarrow> BrowserSession \<Rightarrow> string \<Rightarrow> Options \<Rightarrow> State \<Rightarrow> NavigationResult \<times> State" where
  "navigateTry env session url opts st =
     (case homepageFirst env session url opts st of
        (Some e, st1) \<Rightarrow> (NavFailure url e, st1)
      | (None, st1) \<Rightarrow>
          (case do_goto env
                  (Goto (page session) url (str_or (waitUntil opts) ''domcontentloaded'')
                     (navTimeout env opts)) st1 of
             (Inl e, st2) \<Rightarrow> (NavFailure url e, st2)
           | (Inr statusCode, st2) \<Rightarrow>
               (case do_ask env (Title (page session)) st2 of
                  (Inl e, st3) \<Rightarrow> (NavFailure url e, st3)
                | (Inr title, st3) \<Rightarrow>
                    (NavSuccess (pageUrl env (trace st3) (page session)) title statusCode,
                     st3))))"

definition navigate ::
  "Env \<Rightarrow> string \<Rightarrow> string option \<Rightarrow> Options \<Rightarrow> State
     \<Rightarrow> NavigationResult outcome \<times> State" where
  "navigate env url sessionId opts st =
     (let urlValidation = validateUrl (urlParser env) (securityConfig env) url in
      if \<not> valid urlValidation then (Thrown (error_text urlValidation), st)
      else (case getSession env sessionId st of
              (Thrown e, st1) \<Rightarrow> (Thrown e, st1)
            | (Returned session, st1) \<Rightarrow>
                (case navigateTry env session url opts st1 of
                   (r, st2) \<Rightarrow> (Returned r, st2))))"

subsection \<open>Screenshots\<close>

record ShotMetadata = Size +
  meta_format :: string

datatype ScreenshotResult = ShotSuccess string ShotMetadata | ShotFailure string

text \<open>A wait whose failure is caught and logged: the call is made, its outcome dropped.\<close>

definition best_effort :: "Env \<Rightarrow> call \<Rightarrow> State \<Rightarrow> State" where
  "best_effort env c st = (case do_act env c st of (r, st1) \<Rightarrow> st1)"

definition waitBeforeShot :: "Env \<Rightarrow> BrowserSession \<Rightarrow> Options \<Rightarrow> State \<Rightarrow> State" where
  "waitBeforeShot env session opts st =
     (let st1 = (if truthy (waitCondition opts)
                 then best_effort env
                        (WaitForLoadState (page session) (the (waitCondition opts))
                           (num_or (waitTimeout opts) 5000)) st
                 else st);
          st2 = (if str_includes (pageUrl env (trace st1) (page session)) ''/products/''
                 then (case do_act env
                              (RaceForSelectors (page session)
                                 [''.product-card'', ''.no-products'', ''.products-grid''] 10000)
                              (record_call (Helper ''simulateHumanBehavior'' (page session)) st1) of
                         (None, st1b) \<Rightarrow>
                           record_call (Helper ''waitForWordPressReady'' (page session)) st1b
                       | (Some e, st1b) \<Rightarrow> st1b)
                 else st1)
      in (case additionalDelay opts of
            None \<Rightarrow> st2
          | Some d \<Rightarrow> if 0 < d then record_call (Sleep d) st2 else st2))"

definition screenshotOptions :: "Options \<Rightarrow> ShotOptions" where
  "screenshotOptions opts =
     \<lparr>shot_type = str_or (format opts) ''png'',
      shot_fullPage = (case fullPage opts of None \<Rightarrow> False | Some b \<Rightarrow> b),
      shot_quality = (if num_or (quality opts) 0 \<noteq> 0 \<and> format opts = Some ''jpeg''
                      then quality opts else None),
      shot_clip = clip opts\<rparr>"

text \<open>
  \<^verbatim>\<open>screenshotOptions.clip?.width || session.config.viewport?.width || 1280\<close>, and
  the same for the height.
\<close>

definition shotMetadata :: "BrowserSession \<Rightarrow> Options \<Rightarrow> ShotMetadata" where
  "shotMetadata session opts =
     \<lparr>width = num_or (map_option width (shot_clip (screenshotOptions opts)))
                (num_or (map_option width (viewport (config session))) 1280),
      height = num_or (map_option height (shot_clip (screenshotOptions opts)))
                 (num_or (map_option height (viewport (config session))) 720),
      meta_format = str_or (format opts) ''png''\<rparr>"

definition screenshotTry ::
  "Env \<Rightarrow> BrowserSession \<Rightarrow> Options \<Rightarrow> State \<Rightarrow> ScreenshotResult \<times> State" where
  "screenshotTry env session opts st =
     (let st3 = waitBeforeShot env session opts st in
      if truthy (selector opts) \<and> \<not> valid (validateSelector (the (selector opts)))
      then (ShotFailure (error_text (validateSelector (the (selector opts)))), st3)
      else
        (let st4 = (if truthy (selector opts)
                    then record_call (Locator (page session) (the (selector opts))) st3
                    else st3)
         in (case do_ask env
                    (Screenshot (page session)
                       (if truthy (selector opts) then selector opts else None)
                       (screenshotOptions opts)) st4 of
               (Inl e, st5) \<Rightarrow> (ShotFailure e, st5)
             | (Inr buffer, st5) \<Rightarrow>
                 (ShotSuccess (toBase64 env buffer) (shotMetadata session opts), st5))))"

definition screenshot ::
  "Env \<Rightarrow> string option \<Rightarrow> Options \<Rightarrow> State \<Rightarrow> ScreenshotResult outcome \<times> State" where
  "screenshot env sessionId opts st =
     (case getSession env sessionId st of
        (Thrown e, st1) \<Rightarrow> (Thrown e, st1)
      | (Returned session, st1) \<Rightarrow>
          (case screenshotTry env session opts st1 of
             (r, st2) \<Rightarrow> (Returned r, st2)))"

subsection \<open>Content extraction\<close>

record ContentMetadata =
  meta_length :: nat
  encoding :: string
  meta_url :: string
  timestamp :: string

datatype ContentResult = ContentSuccess string ContentMetadata | ContentFailure string

definition waitForPageReady :: "Env \<Rightarrow> handle \<Rightarrow> State \<Rightarrow> State" where
  "waitForPageReady env pg st =
     record_call (Sleep 2000)
       (best_effort env (WaitForSelector pg ''body'' 10000)
          (best_effort env (WaitForLoadState pg ''domcontentloaded'' 10000)
             (best_effort env (WaitForLoadState pg ''networkidle'' 15000) st)))"

text \<open>
  One method of \<^verbatim>\<open>extractTextContent\<close>: the result \<^verbatim>\<open>|| ''\<close>, kept when it is not
  blank; a method that throws is passed over.
\<close>

definition text_of :: "string + string option \<Rightarrow> string option" where
  "text_of r =
     (case r of
        Inl e \<Rightarrow> None
      | Inr c \<Rightarrow> if 0 < length (trim (str_or c [])) then Some (str_or c []) else None)"

definition extractTextContent :: "Env \<Rightarrow> handle \<Rightarrow> State \<Rightarrow> string \<times> State" where
  "extractTextContent env pg st =
     (case do_ask_nullable env (PageTextContent pg ''body'') st of
        (r1, st1) \<Rightarrow>
          (case text_of r1 of
             Some content \<Rightarrow> (content, st1)
           | None \<Rightarrow>
               (case do_ask_nullable env (Evaluate pg ''document.body.innerText'') st1 of
                  (r2, st2) \<Rightarrow>
                    (case text_of r2 of
                       Some content \<Rightarrow> (content, st2)
                     | None \<Rightarrow>
                         (case do_ask_nullable env
                                 (Evaluate pg ''document.body.textContent'') st2 of
                            (r3, st3) \<Rightarrow>
                              (case text_of r3 of
                                 Some content \<Rightarrow> (content, st3)
                               | None \<Rightarrow> ([], st3)))))))"

text \<open>
  One method of \<^verbatim>\<open>extractHtmlContent\<close>: the variable \<^verbatim>\<open>content\<close> after it (it keeps
  its value when the method throws), and whether the method returns it.
\<close>

definition html_of :: "string \<Rightarrow> string + string option \<Rightarrow> string \<times> bool" where
  "html_of content r =
     (case r of
        Inl e \<Rightarrow> (content, False)
      | Inr c \<Rightarrow> (str_or c [], 100 < length (str_or c [])))"

definition extractHtmlContent :: "Env \<Rightarrow> handle \<Rightarrow> State \<Rightarrow> string \<times> State" where
  "extractHtmlContent env pg st =
     (case do_ask_nullable env (PageContent pg) st of
        (r1, st1) \<Rightarrow>
          (case html_of [] r1 of
             (content1, True) \<Rightarrow> (content1, st1)
           | (content1, False) \<Rightarrow>
               (case do_ask_nullable env
                       (Evaluate pg ''document.documentElement.outerHTML'') st1 of
                  (r2, st2) \<Rightarrow>
                    (case html_of content1 r2 of
                       (content2, True) \<Rightarrow> (content2, st2)
                     | (content2, False) \<Rightarrow>
                         (case do_ask_nullable env
                                 (Evaluate pg ''<html><head>head.innerHTML</head><body>body.innerHTML</body></html>'')
                                 st2 of
                            (r3, st3) \<Rightarrow> (fst (html_of content2 r3), st3))))))"

text \<open>The content of one element, after the selector was validated.\<close>

definition extractFromElement ::
  "Env \<Rightarrow> handle \<Rightarrow> string \<Rightarrow> string option \<Rightarrow> State \<Rightarrow> (string + string) \<times> State" where
  "extractFromElement env pg sel fmt st =
     (let st1 = best_effort env (WaitFor pg sel 10000) (record_call (Locator pg sel) st) in
      if fmt = Some ''html''
      then do_ask env (InnerHTML pg sel) st1
      else (case do_ask_nullable env (TextContent pg sel) st1 of
              (Inl e, st2) \<Rightarrow> (Inl e, st2)
            | (Inr c, st2) \<Rightarrow> (Inr (str_or c []), st2)))"

definition extractFromPage ::
  "Env \<Rightarrow> handle \<Rightarrow> string option \<Rightarrow> State \<Rightarrow> string \<times> State" where
  "extractFromPage env pg fmt st =
     (if fmt = Some ''text'' then extractTextContent env pg st
      else if fmt = Some ''html'' then extractHtmlContent env pg st
      else if fmt = Some ''markdown''
      then (case extractHtmlContent env pg st of
              (htmlContent, st1) \<Rightarrow> (htmlToMarkdown htmlContent, st1))
      else extractTextContent env pg st)"

definition contentResult :: "Env \<Rightarrow> handle \<Rightarrow> string \<Rightarrow> State \<Rightarrow> ContentResult \<times> State" where
  "contentResult env pg content st =
     (let st1 = (if length content = 0 then record_call (Helper ''debugPageState'' pg) st
                 else st)
      in (ContentSuccess content
            \<lparr>meta_length = length content, encoding = ''utf-8'',
             meta_url = pageUrl env (trace st1) pg,
             timestamp = toISOString env (clock env (trace st1))\<rparr>, st1))"

definition extractContentTry ::
  "Env \<Rightarrow> BrowserSession \<Rightarrow> Options \<Rightarrow> State \<Rightarrow> ContentResult \<times> State" where
  "extractContentTry env session opts st =
     (let st1 = waitForPageReady env (page session) st in
      if truthy (selector opts)
      then (if \<not> valid (validateSelector (the (selector opts)))
            then (ContentFailure (error_text (validateSelector (the (selector opts)))), st1)
            else (case extractFromElement env (page session) (the (selector opts))
                         (format opts) st1 of
                    (Inl e, st2) \<Rightarrow> (ContentFailure e, st2)
                  | (Inr content, st2) \<Rightarrow> contentResult env (page session) content st2))
      else (case extractFromPage env (page session) (format opts) st1 of
              (content, st2) \<Rightarrow> contentResult env (page session) content st2))"

definition extractContent ::
  "Env \<Rightarrow> string option \<Rightarrow> Options \<Rightarrow> State \<Rightarrow> ContentResult outcome \<times> State" where
  "extractContent env sessionId opts st =
     (case getSession env sessionId st of
        (Thrown e, st1) \<Rightarrow> (Thrown e, st1)
      | (Returned session, st1) \<Rightarrow>
          (case extractContentTry env session opts st1 of
             (r, st2) \<Rightarrow> (Returned r, st2)))"

text \<open>
  \<^verbatim>\<open>ContentExtractionTool.execute\<close> (tools/content.ts): the tool's arguments become
  the options, \<^verbatim>\<open>removeScripts\<close> defaulting to true and \<^verbatim>\<open>removeStyles\<close> to false,
  and whatever the manager throws becomes a failed result.
\<close>

definition contentToolOptions :: "Options \<Rightarrow> Options" where
  "contentToolOptions toolArgs =
     noOptions\<lparr>format := format toolArgs, selector := selector toolArgs,
       removeScripts := Some (removeScripts toolArgs \<noteq> Some False),
       removeStyles := Some (removeStyles toolArgs = Some True)\<rparr>"

definition contentToolExecute ::
  "Env \<Rightarrow> string option \<Rightarrow> Options \<Rightarrow> State \<Rightarrow> ContentResult \<times> State" where
  "contentToolExecute env sessionId toolArgs st =
     (case extractContent env sessionId (contentToolOptions toolArgs) st of
        (Thrown e, st1) \<Rightarrow> (ContentFailure e, st1)
      | (Returned r, st1) \<Rightarrow> (r, st1))"

subsection \<open>Element interaction\<close>

record ElementInfo =
  tagName :: string
  elem_text :: string
  elem_value :: "string option"

datatype InteractionResult = InteractSuccess ElementInfo | InteractFailure string

definition innerForce :: "Options \<Rightarrow> bool option" where
  "innerForce opts = (case options opts of None \<Rightarrow> None | Some inner \<Rightarrow> force inner)"

definition innerTimeout :: "Options \<Rightarrow> int option" where
  "innerTimeout opts = (case options opts of None \<Rightarrow> None | Some inner \<Rightarrow> inner_timeout inner)"

text \<open>
  The \<^verbatim>\<open>switch\<close> on the action, inside the \<^verbatim>\<open>try\<close>: \<open>Some e\<close> when it throws
  \<open>e\<close>. The text of a \<^verbatim>\<open>type\<close> action is validated here, just before it is
  filled in.
\<close>

definition performAction ::
  "Env \<Rightarrow> handle \<Rightarrow> string \<Rightarrow> Options \<Rightarrow> State \<Rightarrow> string option \<times> State" where
  "performAction env pg sel opts st =
     (if action opts = Some ''click''
      then do_act env (Click pg sel (innerForce opts) (innerTimeout opts)) st
      else if action opts = Some ''type''
      then (if truthy (input_value opts)
            then (if \<not> valid (validateInputText (the (input_value opts)))
                  then (Some (error_text (validateInputText (the (input_value opts)))), st)
                  else do_act env (Fill pg sel (the (input_value opts))) st)
            else (None, st))
      else if action opts = Some ''select''
      then (if truthy (input_value opts)
            then do_act env (SelectOption pg sel (the (input_value opts))) st
            else (None, st))
      else if action opts = Some ''hover'' then do_act env (Hover pg sel) st
      else if action opts = Some ''focus'' then do_act env (Focus pg sel) st
      else if action opts = Some ''clear'' then do_act env (Clear pg sel) st
      else (Some (''Unsupported action: ''
                   @ (case action opts of None \<Rightarrow> ''undefined'' | Some a \<Rightarrow> a)), st))"

definition elementInfo ::
  "Env \<Rightarrow> handle \<Rightarrow> string \<Rightarrow> State \<Rightarrow> InteractionResult \<times> State" where
  "elementInfo env pg sel st =
     (case do_ask env (TagName pg sel) st of
        (Inl e, st1) \<Rightarrow> (InteractFailure e, st1)
      | (Inr tag, st1) \<Rightarrow>
          (case do_ask_nullable env (TextContent pg sel) st1 of
             (Inl e, st2) \<Rightarrow> (InteractFailure e, st2)
           | (Inr txt, st2) \<Rightarrow>
               (case do_ask env (InputValue pg sel) st2 of
                  (r, st3) \<Rightarrow>
                    (InteractSuccess
                       \<lparr>tagName = tag, elem_text = str_or txt [],
                        elem_value = (case r of Inl e \<Rightarrow> None | Inr v \<Rightarrow> Some v)\<rparr>, st3))))"

definition interactTry ::
  "Env \<Rightarrow> BrowserSession \<Rightarrow> string \<Rightarrow> Options \<Rightarrow> State \<Rightarrow> InteractionResult \<times> State" where
  "interactTry env session sel opts st =
     (case do_act env (WaitFor (page session) sel (num_or (innerTimeout opts) 5000))
             (record_call (Locator (page session) sel) st) of
        (Some e, st1) \<Rightarrow> (InteractFailure e, st1)
      | (None, st1) \<Rightarrow>
          (case performAction env (page session) sel opts st1 of
             (Some e, st2) \<Rightarrow> (InteractFailure e, st2)
           | (None, st2) \<Rightarrow> elementInfo env (page session) sel st2))"

text \<open>
  \<^verbatim>\<open>interactElement\<close>. Only the selector is validated before the session is
  resolved, outside the \<^verbatim>\<open>try\<close>; a missing selector fails Joi's \<^verbatim>\<open>required()\<close>.
\<close>

definition selectorValidation :: "string option \<Rightarrow> ValidationResult" where
  "selectorValidation s =
     (case s of
        None \<Rightarrow> reject (''Invalid selector: '' @ [DQ] @ ''value'' @ [DQ] @ '' is required'')
      | Some sel \<Rightarrow> validateSelector sel)"

definition interactElement ::
  "Env \<Rightarrow> string option \<Rightarrow> Options \<Rightarrow> State \<Rightarrow> InteractionResult outcome \<times> State" where
  "interactElement env sessionId opts st =
     (if \<not> valid (selectorValidation (selector opts))
      then (Thrown (error_text (selectorValidation (selector opts))), st)
      else (case getSession env sessionId st of
              (Thrown e, st1) \<Rightarrow> (Thrown e, st1)
            | (Returned session, st1) \<Rightarrow>
                (case interactTry env session (the (selector opts)) opts st1 of
                   (r, st2) \<Rightarrow> (Returned r, st2))))"

subsection \<open>Script execution\<close>

datatype ScriptResult = ScriptSuccess string | ScriptFailure string

text \<open>
  \<^verbatim>\<open>executeScript\<close>. The script is validated before the session is resolved; a
  missing script fails Joi's \<^verbatim>\<open>required()\<close>. The value the script returns is kept
  as its text.
\<close>

definition scriptValidation :: "string option \<Rightarrow> ValidationResult" where
  "scriptValidation s =
     (case s of
        None \<Rightarrow> reject (''Invalid script: '' @ [DQ] @ ''value'' @ [DQ] @ '' is required'')
      | Some script \<Rightarrow> validateScript script)"

definition executeScript ::
  "Env \<Rightarrow> string option \<Rightarrow> string option \<Rightarrow> string list option \<Rightarrow> State
     \<Rightarrow> ScriptResult outcome \<times> State" where
  "executeScript env sessionId script scriptArgs st =
     (if \<not> valid (scriptValidation script)
      then (Thrown (error_text (scriptValidation script)), st)
      else (case getSession env sessionId st of
              (Thrown e, st1) \<Rightarrow> (Thrown e, st1)
            | (Returned session, st1) \<Rightarrow>
                (case do_ask env
                        (EvaluateScript (page session) (the script)
                           (case scriptArgs of None \<Rightarrow> [] | Some given \<Rightarrow> given)) st1 of
                   (Inl e, st2) \<Rightarrow> (Returned (ScriptFailure e), st2)
                 | (Inr result, st2) \<Rightarrow> (Returned (ScriptSuccess result), st2))))"

section \<open>Well-formed session maps, and sample worlds for the closed theorems\<close>

text \<open>Two sessions share neither context nor page.\<close>

definition separate :: "BrowserSession \<Rightarrow> BrowserSession \<Rightarrow> bool" where
  "separate s1 s2 \<longleftrightarrow>
     browserContext s1 \<noteq> browserContext s2 \<and> browserContext s1 \<noteq> page s2
     \<and> page s1 \<noteq> browserContext s2 \<and> page s1 \<noteq> page s2"

text \<open>
  What holds of every entry of the session map in a reachable state: the key is
  not empty, the context and the page were created by earlier calls and differ,
  and the configuration is the manager's.
\<close>

definition session_ok :: "Env \<Rightarrow> State \<Rightarrow> string \<times> BrowserSession \<Rightarrow> bool" where
  "session_ok env st p \<longleftrightarrow>
     fst p \<noteq> [] \<and> browserContext (snd p) < length (trace st) \<and> page (snd p) < length (trace st)
     \<and> browserContext (snd p) \<noteq> page (snd p) \<and> config (snd p) = browserConfig env"

definition sessions_ok :: "Env \<Rightarrow> State \<Rightarrow> bool" where
  "sessions_ok env st \<longleftrightarrow>
     distinct (map fst (sessions st))
     \<and> list_all (session_ok env st) (sessions st)
     \<and> list_all (\<lambda>p1. list_all (\<lambda>p2. fst p1 = fst p2 \<or> separate (snd p1) (snd p2))
                   (sessions st)) (sessions st)"

text \<open>The manager as constructed: no browser, no session, no call made.\<close>

definition initialState :: State where
  "initialState = \<lparr>browser = None, sessions = [], trace = []\<rparr>"

text \<open>
  A world in which no call fails, for the closed theorems. \<open>sampleBase64\<close> is
  \<^verbatim>\<open>Buffer.toString('base64')\<close> on the one buffer this world returns.
\<close>

definition sampleBase64 :: "string \<Rightarrow> string" where
  "sampleBase64 s = (if s = ''hi'' then ''aGk='' else [])"

definition quietEnv :: Env where
  "quietEnv =
     \<lparr>browserConfig = \<lparr>headless = None, viewport = None, timeout = None, userDataDir = None,
                        args = None\<rparr>,
      securityConfig = exampleOnly,
      urlParser = sampleURL,
      act = (\<lambda>history c. None),
      ask = (\<lambda>history c. Inr ''hi''),
      ask_nullable = (\<lambda>history c. Inr (Some ''hi'')),
      gotoStatus = (\<lambda>history c. Inr (Some 200)),
      pageUrl = (\<lambda>history pg. ''https://example.com/''),
      clock = (\<lambda>history. length history),
      randomSuffix = (\<lambda>history. ''k3j9x2m1q''),
      toBase64 = sampleBase64,
      toISOString = (\<lambda>t. ''2024-01-01T00:00:00.000Z'')\<rparr>"

definition smallClip :: Options where
  "smallClip = noOptions\<lparr>clip := Some \<lparr>width = 100, height = 50, clip_x = 0, clip_y = 0\<rparr>\<rparr>"

definition zeroWidthClip :: Options where
  "zeroWidthClip = noOptions\<lparr>clip := Some \<lparr>width = 0, height = 50, clip_x = 0, clip_y = 0\<rparr>\<rparr>"

text \<open>The calls that close the contexts of a list of sessions.\<close>

definition closes :: "(string \<times> BrowserSession) list \<Rightarrow> call list" where
  "closes ps = map (\<lambda>p. ContextClose (browserContext (snd p))) ps"

text \<open>A world in which closing context 1 throws, and the state with two sessions.\<close>

definition failingCloseEnv :: Env where
  "failingCloseEnv =
     quietEnv\<lparr>act := (\<lambda>history c. if c = ContextClose 1
                                    then Some ''Target page, context or browser has been closed''
                                    else None)\<rparr>"

definition twoSessions :: State where
  "twoSessions =
     snd (getSession failingCloseEnv (Some ''b'')
            (snd (getSession failingCloseEnv (Some ''a'') initialState)))"

text \<open>The navigations among the calls of a history.\<close>

fun isGoto :: "call \<Rightarrow> bool" where
  "isGoto (Goto pg url cond t) = True"
| "isGoto c = False"

definition gotos :: "call list \<Rightarrow> call list" where
  "gotos history = filter isGoto history"

definition homeGoto :: "Env \<Rightarrow> BrowserSession \<Rightarrow> URL \<Rightarrow> Options \<Rightarrow> call" where
  "homeGoto env session urlObj opts =
     Goto (page session) (origin urlObj) ''domcontentloaded'' (navTimeout env opts)"

definition targetGoto :: "Env \<Rightarrow> BrowserSession \<Rightarrow> string \<Rightarrow> Options \<Rightarrow> call" where
  "targetGoto env session url opts =
     Goto (page session) url (str_or (waitUntil opts) ''domcontentloaded'') (navTimeout env opts)"

definition widgetUrl :: string where
  "widgetUrl = ''https://example.com/products/widget''"

text \<open>The failures \<open>interactElement\<close> finds only inside its \<^verbatim>\<open>try\<close>.\<close>

definition supportedActions :: "string list" where
  "supportedActions = [''click'', ''type'', ''select'', ''hover'', ''focus'', ''clear'']"

definition tooLongText :: "Options \<Rightarrow> bool" where
  "tooLongText opts \<longleftrightarrow>
     action opts = Some ''type''
     \<and> (case input_value opts of None \<Rightarrow> False | Some v \<Rightarrow> 10000 < length v)"

definition unsupportedAction :: "Options \<Rightarrow> bool" where
  "unsupportedAction opts \<longleftrightarrow>
     (case action opts of None \<Rightarrow> True | Some a \<Rightarrow> \<not> List.member supportedActions a)"

definition lateMessage :: "Options \<Rightarrow> string" where
  "lateMessage opts =
     (if action opts = Some ''type''
      then error_text (validateInputText (the (input_value opts)))
      else ''Unsupported action: '' @ (case action opts of None \<Rightarrow> ''undefined'' | Some a \<Rightarrow> a))"

definition longType :: Options where
  "longType = noOptions\<lparr>selector := Some ''#q'', action := Some ''type'',
     input_value := Some (replicate 10001 CHR ''a'')\<rparr>"

definition danceAction :: Options where
  "danceAction = noOptions\<lparr>selector := Some ''#q'', action := Some ''dance''\<rparr>"

text \<open>
  The states the manager can be in: the one it is constructed in, and the state
  any of its public operations leaves, whether the operation returns or throws.
\<close>

inductive reachable :: "Env \<Rightarrow> State \<Rightarrow> bool" for env :: Env where
  constructed: "reachable env initialState"
| after_initialize: "reachable env st \<Longrightarrow> reachable env (snd (initialize env st))"
| after_createSession: "reachable env st \<Longrightarrow> reachable env (snd (createSession env sid st))"
| after_getSession: "reachable env st \<Longrightarrow> reachable env (snd (getSession env sid st))"
| after_closeSession: "reachable env st \<Longrightarrow> reachable env (snd (closeSession env k st))"
| after_cleanup: "reachable env st \<Longrightarrow> reachable env (snd (cleanup env st))"
| after_navigate: "reachable env st \<Longrightarrow> reachable env (snd (navigate env url sid opts st))"
| after_screenshot: "reachable env st \<Longrightarrow> reachable env (snd (screenshot env sid opts st))"
| after_extractContent:
    "reachable env st \<Longrightarrow> reachable env (snd (extractContent env sid opts st))"
| after_interactElement:
    "reachable env st \<Longrightarrow> reachable env (snd (interactElement env sid opts st))"
| after_executeScript:
    "reachable env st \<Longrightarrow> reachable env (snd (executeScript env sid script scriptArgs st))"

section \<open>Properties of the string functions\<close>

lemma str_includes_iff: "str_includes s sub \<longleftrightarrow> (\<exists>p q. s = p @ sub @ q)"
proof (induction s)
  case Nil
  then show ?case by auto
next
  case (Cons c cs)
  show ?case
  proof
    assume "str_includes (c # cs) sub"
    then consider "prefix sub (c # cs)" | "str_includes cs sub" by auto
    then show "\<exists>p q. c # cs = p @ sub @ q"
    proof cases
      case 1
      then obtain q where "c # cs = sub @ q" by (auto simp: prefix_def)
      then have "c # cs = [] @ sub @ q" by simp
      then show ?thesis by blast
    next
      case 2
      with Cons.IH obtain p q where "cs = p @ sub @ q" by blast
      then have "c # cs = (c # p) @ sub @ q" by simp
      then show ?thesis by blast
    qed
  next
    assume "\<exists>p q. c # cs = p @ sub @ q"
    then obtain p q where pq: "c # cs = p @ sub @ q" by blast
    show "str_includes (c # cs) sub"
    proof (cases p)
      case Nil
      with pq have "prefix sub (c # cs)" by (simp add: prefix_def)
      then show ?thesis by simp
    next
      case (Cons a p')
      with pq have "cs = p' @ sub @ q" by simp
      with Cons.IH have "str_includes cs sub" by blast
      then show ?thesis by simp
    qed
  qed
qed

section \<open>Properties of validateUrl\<close>

lemma valid_reject [simp]: "valid (reject msg) = False"
  by (simp add: reject_def)

lemma valid_accept [simp]: "valid accept = True"
  by (simp add: accept_def)

text \<open>
  C1 (as amended). For a URL that parses and a configuration whose allow-list is
  non-empty, \<open>validateUrl\<close> accepts if and only if the hostname contains an
  allow-listed substring, contains no blocked-domain substring, and the
  protocol is \<^verbatim>\<open>http:\<close> or \<^verbatim>\<open>https:\<close>.
\<close>

theorem validateUrl_allowlist_iff:
  assumes "newURL url = Inr urlObj"
    and "allowedDomains cfg = Some ds"
    and "ds \<noteq> []"
  shows "valid (validateUrl newURL cfg url) \<longleftrightarrow>
           (\<exists>d \<in> set ds. \<exists>p q. hostname urlObj = p @ d @ q)
         \<and> \<not> (\<exists>b \<in> (case blockedDomains cfg of None \<Rightarrow> {} | Some bs \<Rightarrow> set bs).
                  \<exists>p q. hostname urlObj = p @ b @ q)
         \<and> protocol urlObj \<in> {''http:'', ''https:''}"
proof -
  have blocked: "isBlocked cfg (hostname urlObj) \<longleftrightarrow>
      (\<exists>b \<in> (case blockedDomains cfg of None \<Rightarrow> {} | Some bs \<Rightarrow> set bs).
          \<exists>p q. hostname urlObj = p @ b @ q)"
    by (simp add: isBlocked_def list_ex_iff str_includes_iff split: option.split)
  have allowed: "isAllowed ds (hostname urlObj) \<longleftrightarrow>
      (\<exists>d \<in> set ds. \<exists>p q. hostname urlObj = p @ d @ q)"
    by (simp add: isAllowed_def list_ex_iff str_includes_iff)
  have proto: "List.member allowedProtocols (protocol urlObj) \<longleftrightarrow>
      protocol urlObj \<in> {''http:'', ''https:''}"
    by (auto simp: allowedProtocols_def)
  show ?thesis
    unfolding validateUrl_def blocked [symmetric] allowed [symmetric] proto [symmetric]
    using assms by simp
qed

theorem validateUrl_allowlist_iff_witness:
  "valid (validateUrl sampleURL exampleOnly ''https://example.com/'')"
proof -
  have p: "sampleURL ''https://example.com/'' =
      Inr \<lparr>hostname = ''example.com'', protocol = ''https:'', origin = ''https://example.com''\<rparr>"
    by (simp add: sampleURL_def)
  have a: "allowedDomains exampleOnly = Some [''example.com'']"
    by (simp add: exampleOnly_def)
  have h: "\<exists>p q. ''example.com'' = p @ ''example.com'' @ q"
    by (rule exI [of _ "[]"], rule exI [of _ "[]"]) simp
  show ?thesis
    using validateUrl_allowlist_iff [of sampleURL "''https://example.com/''" _ exampleOnly, OF p a] h
    by (simp add: exampleOnly_def)
qed

text \<open>
  The claim as first stated, without the protocol: an \<^verbatim>\<open>ftp:\<close> URL whose hostname
  is allow-listed and not blocked is rejected.
\<close>

theorem validateUrl_allowlist_counterexample:
  "allowedDomains exampleOnly = Some [''example.com'']
   \<and> sampleURL ''ftp://example.com/x'' =
       Inr \<lparr>hostname = ''example.com'', protocol = ''ftp:'', origin = ''ftp://example.com''\<rparr>
   \<and> isAllowed [''example.com''] ''example.com''
   \<and> \<not> isBlocked exampleOnly ''example.com''
   \<and> \<not> valid (validateUrl sampleURL exampleOnly ''ftp://example.com/x'')"
  by (simp add: exampleOnly_def sampleURL_def isAllowed_def isBlocked_def validateUrl_def
      allowedProtocols_def)

text \<open>
  C2. A URL string whose scheme is not http or https is rejected under every
  configuration: either \<^verbatim>\<open>new URL\<close> throws, or the parsed protocol is neither
  \<^verbatim>\<open>http:\<close> nor \<^verbatim>\<open>https:\<close>.
\<close>

theorem validateUrl_rejects_other_schemes:
  assumes "\<And>urlObj. newURL url = Inr urlObj \<Longrightarrow> protocol urlObj \<notin> {''http:'', ''https:''}"
  shows "\<not> valid (validateUrl newURL cfg url)"
proof (cases "newURL url")
  case (Inl err)
  then show ?thesis by (simp add: validateUrl_def)
next
  case (Inr urlObj)
  with assms have "\<not> List.member allowedProtocols (protocol urlObj)"
    by (auto simp: allowedProtocols_def)
  with Inr show ?thesis by (simp add: validateUrl_def)
qed

theorem validateUrl_rejects_other_schemes_witness:
  "\<not> valid (validateUrl sampleURL exampleOnly ''javascript:alert(1)'')
   \<and> \<not> valid (validateUrl sampleURL
        \<lparr>allowedDomains = None, blockedDomains = None, maxExecutionTime = None,
         maxMemoryUsage = None, enableSandbox = None\<rparr> ''javascript:alert(1)'')"
proof -
  have p: "\<And>urlObj. sampleURL ''javascript:alert(1)'' = Inr urlObj
      \<Longrightarrow> protocol urlObj \<notin> {''http:'', ''https:''}"
    by (auto simp: sampleURL_def)
  show ?thesis
    using validateUrl_rejects_other_schemes [of sampleURL "''javascript:alert(1)''", OF p]
    by blast
qed


section \<open>The matcher against the language of a pattern\<close>

lemma snd_cap_open [simp]: "snd (cap_open cap m) = snd m"
  by (cases m) simp

lemma snd_cap_extend [simp]: "snd (cap_extend cap x m) = snd m"
  by (cases m) simp

lemma lang_star_skip: "lang ic r w \<Longrightarrow> lang ic (Star q cap cl # r) w"
  by (cases w) simp_all

lemma lang_star_cases:
  "lang ic (Star q cap cl # r) w \<Longrightarrow>
     lang ic r w \<or> (\<exists>x ws. w = x # ws \<and> in_class cl x \<and> lang ic (Star q cap cl # r) ws)"
  by (cases w) auto

lemma rmatch_sound:
  "rmatch ic p s = Some m \<Longrightarrow> \<exists>w. s = w @ snd m \<and> lang ic p w"
proof (induction ic p s arbitrary: m rule: rmatch.induct)
  case (1 ic s)
  then show ?case by auto
next
  case (2 ic c r)
  then show ?case by simp
next
  case (3 ic c r x xs)
  then have eq: "char_eq ic c x" and "rmatch ic r xs = Some m"
    by (auto split: if_splits)
  with 3 obtain w where "xs = w @ snd m" "lang ic r w" by blast
  with eq have "x # xs = (x # w) @ snd m \<and> lang ic (Lit c # r) (x # w)" by simp
  then show ?case by blast
next
  case (4 ic q cap cl r)
  then obtain m' where "rmatch ic r [] = Some m'" "m = cap_open cap m'" by auto
  with 4 obtain w where "[] = w @ snd m" "lang ic r w" by fastforce
  then show ?case by (auto intro: lang_star_skip)
next
  case (5 ic cap cl r x xs)
  have skip: "\<exists>w. x # xs = w @ snd m \<and> lang ic (Star Greedy cap cl # r) w"
    if m': "rmatch ic r (x # xs) = Some m'" "m = cap_open cap m'"
      and ih: "\<And>m. rmatch ic r (x # xs) = Some m \<Longrightarrow> \<exists>w. x # xs = w @ snd m \<and> lang ic r w"
    for m'
  proof -
    from ih [OF m'(1)] obtain w where "x # xs = w @ snd m'" "lang ic r w" by blast
    with m'(2) have "x # xs = w @ snd m \<and> lang ic (Star Greedy cap cl # r) w"
      by (simp add: lang_star_skip)
    then show ?thesis by blast
  qed
  show ?case
  proof (cases "in_class cl x")
    case True
    show ?thesis
    proof (cases "rmatch ic (Star Greedy cap cl # r) xs")
      case None
      with True "5.prems" obtain m' where m': "rmatch ic r (x # xs) = Some m'" "m = cap_open cap m'"
        by auto
      then show ?thesis using "5.IH"(2) [OF True None] by (rule skip)
    next
      case (Some m')
      with True "5.prems" have m: "m = cap_extend cap x m'" by simp
      from "5.IH"(1) [OF True Some] obtain w
        where "xs = w @ snd m'" "lang ic (Star Greedy cap cl # r) w" by blast
      with m True have "x # xs = (x # w) @ snd m \<and> lang ic (Star Greedy cap cl # r) (x # w)"
        by simp
      then show ?thesis by blast
    qed
  next
    case False
    with "5.prems" obtain m' where m': "rmatch ic r (x # xs) = Some m'" "m = cap_open cap m'"
      by auto
    then show ?thesis using "5.IH"(3) [OF False] by (rule skip)
  qed
next
  case (6 ic cap cl r x xs)
  show ?case
  proof (cases "rmatch ic r (x # xs)")
    case (Some m')
    with "6.prems" have m: "m = cap_open cap m'" by simp
    from "6.IH"(1) [OF Some] obtain w where "x # xs = w @ snd m'" "lang ic r w" by blast
    with m have "x # xs = w @ snd m \<and> lang ic (Star Lazy cap cl # r) w"
      by (simp add: lang_star_skip)
    then show ?thesis by blast
  next
    case None
    with "6.prems" have c: "in_class cl x" by (auto split: if_splits)
    with None "6.prems" obtain m' where m': "in_class cl x"
      "rmatch ic (Star Lazy cap cl # r) xs = Some m'" "m = cap_extend cap x m'"
      by (auto simp del: cap_extend.simps)
    from "6.IH"(2) [OF None m'(1) m'(2)] obtain w
      where "xs = w @ snd m'" "lang ic (Star Lazy cap cl # r) w" by blast
    with m' have "x # xs = (x # w) @ snd m \<and> lang ic (Star Lazy cap cl # r) (x # w)" by simp
    then show ?thesis by blast
  qed
qed

lemma rmatch_complete:
  "s = w @ rest \<Longrightarrow> lang ic p w \<Longrightarrow> rmatch ic p s \<noteq> None"
proof (induction ic p s arbitrary: w rule: rmatch.induct)
  case (1 ic s)
  then show ?case by simp
next
  case (2 ic c r)
  then show ?case by simp
next
  case (3 ic c r x xs)
  then show ?case by (cases w) auto
next
  case (4 ic q cap cl r)
  then show ?case by auto
next
  case (5 ic cap cl r x xs)
  from lang_star_cases [OF "5.prems"(2)] show ?case
  proof
    assume l: "lang ic r w"
    show ?thesis
    proof (cases "in_class cl x")
      case True
      show ?thesis
      proof (cases "rmatch ic (Star Greedy cap cl # r) xs")
        case None
        from "5.IH"(2) [OF True None "5.prems"(1) l] True None show ?thesis by simp
      next
        case (Some m')
        with True show ?thesis by simp
      qed
    next
      case False
      from "5.IH"(3) [OF False "5.prems"(1) l] False show ?thesis by simp
    qed
  next
    assume "\<exists>y ws. w = y # ws \<and> in_class cl y \<and> lang ic (Star Greedy cap cl # r) ws"
    then obtain y ws where w: "w = y # ws" "in_class cl y" "lang ic (Star Greedy cap cl # r) ws"
      by blast
    with "5.prems"(1) have xy: "y = x" "xs = ws @ rest" by simp_all
    from "5.IH"(1) [OF _ xy(2) w(3)] w(2) xy(1)
    have "rmatch ic (Star Greedy cap cl # r) xs \<noteq> None" by simp
    with w(2) xy(1) show ?thesis by auto
  qed
next
  case (6 ic cap cl r x xs)
  from lang_star_cases [OF "6.prems"(2)] show ?case
  proof
    assume l: "lang ic r w"
    from "6.IH"(1) [OF "6.prems"(1) l] show ?thesis by auto
  next
    assume "\<exists>y ws. w = y # ws \<and> in_class cl y \<and> lang ic (Star Lazy cap cl # r) ws"
    then obtain y ws where w: "w = y # ws" "in_class cl y" "lang ic (Star Lazy cap cl # r) ws"
      by blast
    with "6.prems"(1) have xy: "y = x" "xs = ws @ rest" by simp_all
    show ?thesis
    proof (cases "rmatch ic r (x # xs)")
      case None
      from "6.IH"(2) [OF None _ xy(2) w(3)] w(2) xy(1)
      have "rmatch ic (Star Lazy cap cl # r) xs \<noteq> None" by simp
      with None w(2) xy(1) show ?thesis by auto
    next
      case (Some m')
      then show ?thesis by simp
    qed
  qed
qed

lemma rmatch_iff: "rmatch ic p s \<noteq> None \<longleftrightarrow> (\<exists>w rest. s = w @ rest \<and> lang ic p w)"
  using rmatch_sound rmatch_complete by blast

lemma regex_test_iff: "regex_test ic p s \<longleftrightarrow> contains_match ic p s"
proof (induction s)
  case Nil
  show ?case using rmatch_iff [of ic p "[]"] by (auto simp: contains_match_def)
next
  case (Cons x xs)
  show ?case
  proof
    assume "regex_test ic p (x # xs)"
    then consider "rmatch ic p (x # xs) \<noteq> None" | "regex_test ic p xs"
      by (auto split: if_splits)
    then show "contains_match ic p (x # xs)"
    proof cases
      case 1
      then obtain w rest where "x # xs = w @ rest" "lang ic p w"
        using rmatch_iff [of ic p "x # xs"] by blast
      then have "x # xs = [] @ w @ rest \<and> lang ic p w" by simp
      then show ?thesis unfolding contains_match_def by blast
    next
      case 2
      with Cons obtain pre w post where "xs = pre @ w @ post" "lang ic p w"
        by (auto simp: contains_match_def)
      then have "x # xs = (x # pre) @ w @ post \<and> lang ic p w" by simp
      then show ?thesis unfolding contains_match_def by blast
    qed
  next
    assume "contains_match ic p (x # xs)"
    then obtain pre w post where m: "x # xs = pre @ w @ post" "lang ic p w"
      by (auto simp: contains_match_def)
    show "regex_test ic p (x # xs)"
    proof (cases pre)
      case Nil
      with m have "rmatch ic p (x # xs) \<noteq> None"
        using rmatch_complete [of "x # xs" w post ic p] by simp
      then show ?thesis by simp
    next
      case (Cons a pre')
      with m have "xs = pre' @ w @ post" by simp
      with m(2) have "contains_match ic p xs" unfolding contains_match_def by blast
      with Cons.IH show ?thesis by simp
    qed
  qed
qed

section \<open>Properties of validateScript\<close>

lemma joi_script:
  "joi_validate \<lparr>joi_max = 10000, joi_pattern = None, joi_allow_empty = False\<rparr> script = None
     \<longleftrightarrow> script \<noteq> [] \<and> length script \<le> 10000"
  by (auto simp: joi_validate_def)

text \<open>
  C5 (as amended). \<open>validateScript\<close> rejects every script that contains a match of
  a denylisted pattern, and accepts every script that contains none, is not
  empty and is at most 10000 code units long. (Joi accepts the empty string
  only under \<^verbatim>\<open>allow('')\<close>, which this schema does not have.)
\<close>

theorem validateScript_accepts_iff:
  "valid (validateScript script) \<longleftrightarrow>
     script \<noteq> [] \<and> length script \<le> 10000
     \<and> \<not> (\<exists>pattern \<in> set dangerousScriptPatterns. contains_match True pattern script)"
proof (cases "joi_validate \<lparr>joi_max = 10000, joi_pattern = None, joi_allow_empty = False\<rparr> script")
  case None
  then show ?thesis
    using joi_script [of script]
    by (simp add: validateScript_def list_ex_iff regex_test_iff)
next
  case (Some err)
  then show ?thesis
    using joi_script [of script]
    by (auto simp add: validateScript_def)
qed

text \<open>A script with \<^verbatim>\<open>eval  (\<close> in it is rejected.\<close>

theorem validateScript_accepts_iff_witness:
  "\<not> valid (validateScript ''return eval  (x)'')"
proof -
  have "lang True (lit ''eval'' @ [ws, Lit CHR ''('']) ''eval  (''"
    by (simp add: lit_def char_eq_def canonicalize_def isWhiteSpace_def)
  then have "''return eval  (x)'' = ''return '' @ ''eval  ('' @ ''x)''
      \<and> lang True (lit ''eval'' @ [ws, Lit CHR ''('']) ''eval  (''"
    by simp
  then have "contains_match True (lit ''eval'' @ [ws, Lit CHR ''('']) ''return eval  (x)''"
    unfolding contains_match_def by blast
  moreover have "lit ''eval'' @ [ws, Lit CHR ''(''] \<in> set dangerousScriptPatterns"
    by (simp add: dangerousScriptPatterns_def)
  ultimately show ?thesis
    using validateScript_accepts_iff [of "''return eval  (x)''"] by blast
qed

text \<open>
  The claim as first stated fails at the empty script: it contains no
  denylisted pattern and is under the cap, and is rejected.
\<close>

theorem validateScript_empty_counterexample:
  "\<not> (\<exists>pattern \<in> set dangerousScriptPatterns. contains_match True pattern [])
   \<and> length ([] :: string) \<le> 10000
   \<and> \<not> valid (validateScript [])"
proof -
  have "\<not> list_ex (\<lambda>pattern. regex_test True pattern []) dangerousScriptPatterns"
    by (simp add: dangerousScriptPatterns_def lit_def)
  then have "\<not> (\<exists>pattern \<in> set dangerousScriptPatterns. contains_match True pattern [])"
    by (simp add: list_ex_iff regex_test_iff)
  moreover have "\<not> valid (validateScript [])"
    by (simp add: validateScript_def joi_validate_def)
  ultimately show ?thesis by simp
qed

section \<open>Properties of htmlToMarkdown\<close>

text \<open>
  C8. On \<^verbatim>\<open><h1>Title</h1><p>Hello <b>world</b></p>\<close> the conversion returns
  \<^verbatim>\<open># Title\<close>, a blank line, \<^verbatim>\<open>Hello **world**\<close>: the result starts with
  \<^verbatim>\<open># Title\<close>, contains \<^verbatim>\<open>**world**\<close> after it, and has no angle bracket left.
\<close>

theorem htmlToMarkdown_example:
  "htmlToMarkdown ''<h1>Title</h1><p>Hello <b>world</b></p>''
     = ''# Title'' @ [NL, NL] @ ''Hello **world**''
   \<and> prefix ''# Title'' (htmlToMarkdown ''<h1>Title</h1><p>Hello <b>world</b></p>'')
   \<and> (\<exists>mid post. htmlToMarkdown ''<h1>Title</h1><p>Hello <b>world</b></p>''
          = ''# Title'' @ mid @ ''**world**'' @ post)
   \<and> CHR ''<'' \<notin> set (htmlToMarkdown ''<h1>Title</h1><p>Hello <b>world</b></p>'')
   \<and> CHR ''>'' \<notin> set (htmlToMarkdown ''<h1>Title</h1><p>Hello <b>world</b></p>'')"
proof -
  have eq: "htmlToMarkdown ''<h1>Title</h1><p>Hello <b>world</b></p>''
      = ''# Title'' @ [NL, NL] @ ''Hello **world**''"
    by code_simp
  have "''# Title'' @ [NL, NL] @ ''Hello **world**''
      = ''# Title'' @ ([NL, NL] @ ''Hello '') @ ''**world**'' @ []"
    by simp
  then have "\<exists>mid post. ''# Title'' @ [NL, NL] @ ''Hello **world**''
      = ''# Title'' @ mid @ ''**world**'' @ post"
    by blast
  then show ?thesis
    unfolding eq by simp
qed

section \<open>Properties of content extraction\<close>

lemma trace_record_call [simp]: "trace (record_call c st) = trace st @ [c]"
  and sessions_record_call [simp]: "sessions (record_call c st) = sessions st"
  and browser_record_call [simp]: "browser (record_call c st) = browser st"
  by (simp_all add: record_call_def)

lemma snd_do_act [simp]: "snd (do_act env c st) = record_call c st"
  and fst_do_act [simp]: "fst (do_act env c st) = act env (trace st) c"
  by (simp_all add: do_act_def)

lemma best_effort_eq [simp]: "best_effort env c st = record_call c st"
  by (simp add: best_effort_def do_act_def)

lemma extractContentTry_ignores:
  "extractContentTry env session (opts\<lparr>removeScripts := a, removeStyles := b\<rparr>) st
     = extractContentTry env session opts st"
proof -
  have sel: "selector (opts\<lparr>removeScripts := a, removeStyles := b\<rparr>) = selector opts"
    and fmt: "format (opts\<lparr>removeScripts := a, removeStyles := b\<rparr>) = format opts"
    by simp_all
  show ?thesis
    unfolding extractContentTry_def sel fmt ..
qed

text \<open>
  C9. The result of \<open>extractContent\<close>, and the state it leaves, do not depend on
  \<^verbatim>\<open>removeScripts\<close> and \<^verbatim>\<open>removeStyles\<close>: two runs that differ only in these options
  are equal, for every world, state, session, selector and format. The same
  holds one level up, at the tool that accepts the two options.
\<close>

theorem extractContent_ignores_remove_options:
  "extractContent env sessionId (opts\<lparr>removeScripts := a, removeStyles := b\<rparr>) st
     = extractContent env sessionId opts st
   \<and> contentToolExecute env sessionId (toolArgs\<lparr>removeScripts := a, removeStyles := b\<rparr>) st
     = contentToolExecute env sessionId toolArgs st"
proof
  show "extractContent env sessionId (opts\<lparr>removeScripts := a, removeStyles := b\<rparr>) st
     = extractContent env sessionId opts st"
    unfolding extractContent_def extractContentTry_ignores ..
  have args: "contentToolOptions (toolArgs\<lparr>removeScripts := a, removeStyles := b\<rparr>)
      = (contentToolOptions toolArgs)\<lparr>removeScripts := Some (a \<noteq> Some False),
           removeStyles := Some (b = Some True)\<rparr>"
    by (simp add: contentToolOptions_def)
  show "contentToolExecute env sessionId (toolArgs\<lparr>removeScripts := a, removeStyles := b\<rparr>) st
     = contentToolExecute env sessionId toolArgs st"
    unfolding contentToolExecute_def args extractContent_def extractContentTry_ignores ..
qed

section \<open>The session map under Map.set\<close>

lemma sessions_ok_initial: "sessions_ok env initialState"
  by (simp add: sessions_ok_def initialState_def)

lemma map_of_map_set: "map_of (map_set k v m) k' = (if k' = k then Some v else map_of m k')"
  by (induction m) auto

lemma map_fst_map_set:
  "map fst (map_set k v m) = (if k \<in> set (map fst m) then map fst m else map fst m @ [k])"
  by (induction m) auto

lemma distinct_map_set: "distinct (map fst m) \<Longrightarrow> distinct (map fst (map_set k v m))"
  by (simp add: map_fst_map_set)

lemma set_map_set:
  "distinct (map fst m) \<Longrightarrow> set (map_set k v m) = insert (k, v) {p \<in> set m. fst p \<noteq> k}"
  by (induction m) (auto simp: rev_image_eqI)

lemma sessions_ok_map_set:
  assumes ok: "sessions_ok env st"
    and new: "session_ok env st1 (k, s)"
    and sep: "\<And>p. p \<in> set (sessions st) \<Longrightarrow> fst p \<noteq> k \<Longrightarrow> separate s (snd p)"
    and len: "length (trace st) \<le> length (trace st1)"
    and upd: "sessions st1 = map_set k s (sessions st)"
  shows "sessions_ok env st1"
proof -
  from ok have d: "distinct (map fst (sessions st))"
    and each: "\<And>p. p \<in> set (sessions st) \<Longrightarrow> session_ok env st p"
    and pair: "\<And>p1 p2. p1 \<in> set (sessions st) \<Longrightarrow> p2 \<in> set (sessions st) \<Longrightarrow>
        fst p1 = fst p2 \<or> separate (snd p1) (snd p2)"
    by (auto simp: sessions_ok_def list_all_iff)
  have mem: "set (sessions st1) = insert (k, s) {p \<in> set (sessions st). fst p \<noteq> k}"
    using d upd by (simp add: set_map_set)
  have old_ok: "session_ok env st1 p" if "p \<in> set (sessions st)" for p
    using each [OF that] len by (auto simp: session_ok_def)
  have sym: "separate a b \<Longrightarrow> separate b a" for a b
    by (auto simp: separate_def)
  have "distinct (map fst (sessions st1))"
    using d upd by (simp add: distinct_map_set)
  moreover have "\<forall>p \<in> set (sessions st1). session_ok env st1 p"
    using mem new old_ok by auto
  moreover have "\<forall>p1 \<in> set (sessions st1). \<forall>p2 \<in> set (sessions st1).
      fst p1 = fst p2 \<or> separate (snd p1) (snd p2)"
  proof (intro ballI)
    fix p1 p2
    assume "p1 \<in> set (sessions st1)" "p2 \<in> set (sessions st1)"
    then consider "p1 = (k, s)" "p2 = (k, s)"
      | "p1 = (k, s)" "p2 \<in> set (sessions st)" "fst p2 \<noteq> k"
      | "p2 = (k, s)" "p1 \<in> set (sessions st)" "fst p1 \<noteq> k"
      | "p1 \<in> set (sessions st)" "p2 \<in> set (sessions st)"
      using mem by auto
    then show "fst p1 = fst p2 \<or> separate (snd p1) (snd p2)"
    proof cases
      case 1
      then show ?thesis by simp
    next
      case 2
      then show ?thesis using sep [of p2] by simp
    next
      case 3
      then show ?thesis using sym [OF sep [of p1]] by simp
    next
      case 4
      then show ?thesis by (rule pair)
    qed
  qed
  ultimately show ?thesis
    by (simp add: sessions_ok_def list_all_iff)
qed

lemma generateSessionId_nonempty: "generateSessionId env st \<noteq> []"
  by (simp add: generateSessionId_def)

lemma createSession_Returned:
  assumes "createSession env sid st = (Returned k, st1)"
  shows "\<exists>s. sessions st1 = map_set k s (sessions st)
           \<and> length (trace st) \<le> browserContext s \<and> browserContext s < page s
           \<and> page s < length (trace st1) \<and> config s = browserConfig env
           \<and> k \<noteq> [] \<and> (truthy sid \<longrightarrow> k = the sid)"
  using assms
  by (cases sid)
     (auto simp: createSession_def initialize_def do_act_def record_call_def Let_def
        generateSessionId_nonempty
      split: if_splits option.splits prod.splits outcome.splits)

section \<open>What getSession returns\<close>

lemma createSession_trace:
  "createSession env sid st = (r, st1) \<Longrightarrow> length (trace st) \<le> length (trace st1)"
  by (auto simp: createSession_def initialize_def do_act_def record_call_def Let_def
      split: if_splits option.splits prod.splits outcome.splits)

lemma getSession_known:
  assumes "a \<noteq> []" and "map_of (sessions st) a = Some s"
  shows "getSession env (Some a) st =
           (Returned (s\<lparr>lastActivity := clock env (trace st)\<rparr>),
            st\<lparr>sessions := map_set a (s\<lparr>lastActivity := clock env (trace st)\<rparr>) (sessions st)\<rparr>)"
  using assms by (simp add: getSession_def Let_def)

lemma getSession_cases:
  assumes "getSession env sid st = (Returned s, st1)"
  obtains (known) k s0 where "sid = Some k" "k \<noteq> []" "map_of (sessions st) k = Some s0"
      "s = s0\<lparr>lastActivity := clock env (trace st)\<rparr>"
      "st1 = st\<lparr>sessions := map_set k s (sessions st)\<rparr>"
    | (created) k where "createSession env sid st = (Returned k, st1)"
      "map_of (sessions st1) k = Some s"
  using assms
  by (cases sid)
     (auto simp: getSession_def Let_def split: if_splits option.splits prod.splits outcome.splits)

lemma getSession_Returned:
  assumes ok: "sessions_ok env st" and get: "getSession env sid st = (Returned s, st1)"
  shows "sessions_ok env st1
         \<and> (\<exists>k s'. sessions st1 = map_set k s' (sessions st) \<and> map_of (sessions st1) k = Some s
               \<and> k \<noteq> [] \<and> (truthy sid \<longrightarrow> k = the sid))"
  using get
proof (cases rule: getSession_cases)
  case (known k s0)
  from ok have d: "distinct (map fst (sessions st))"
    and each: "\<And>p. p \<in> set (sessions st) \<Longrightarrow> session_ok env st p"
    and pair: "\<And>p1 p2. p1 \<in> set (sessions st) \<Longrightarrow> p2 \<in> set (sessions st) \<Longrightarrow>
        fst p1 = fst p2 \<or> separate (snd p1) (snd p2)"
    by (auto simp: sessions_ok_def list_all_iff)
  from known have mem: "(k, s0) \<in> set (sessions st)" by (auto dest: map_of_SomeD)
  have new: "session_ok env st1 (k, s)"
    using each [OF mem] known by (simp add: session_ok_def)
  have sep: "separate s (snd p)" if "p \<in> set (sessions st)" "fst p \<noteq> k" for p
    using pair [OF mem that(1)] that(2) known by (simp add: separate_def)
  have len: "length (trace st) \<le> length (trace st1)"
    and upd: "sessions st1 = map_set k s (sessions st)"
    using known(5) by simp_all
  have "sessions_ok env st1"
    by (rule sessions_ok_map_set [OF ok new sep len upd])
  moreover have "map_of (sessions st1) k = Some s"
    using known by (simp add: map_of_map_set)
  ultimately show ?thesis using known by auto
next
  case (created k)
  from createSession_Returned [OF created(1)] obtain s'
    where s': "sessions st1 = map_set k s' (sessions st)"
      "length (trace st) \<le> browserContext s'" "browserContext s' < page s'"
      "page s' < length (trace st1)" "config s' = browserConfig env" "k \<noteq> []"
      "truthy sid \<longrightarrow> k = the sid"
    by blast
  with created(2) have eq: "s = s'" by (simp add: map_of_map_set)
  from ok have each: "\<And>p. p \<in> set (sessions st) \<Longrightarrow> session_ok env st p"
    by (auto simp: sessions_ok_def list_all_iff)
  have new: "session_ok env st1 (k, s')"
    using s' by (simp add: session_ok_def)
  have sep: "separate s' (snd p)" if "p \<in> set (sessions st)" for p
    using each [OF that] s' by (auto simp: session_ok_def separate_def)
  have "sessions_ok env st1"
    by (rule sessions_ok_map_set [OF ok new sep createSession_trace [OF created(1)] s'(1)])
  then show ?thesis using s' created(2) eq by auto
qed

lemma sessions_ok_separate:
  assumes "sessions_ok env st" "map_of (sessions st) a = Some s1" "map_of (sessions st) b = Some s2"
    "a \<noteq> b"
  shows "separate s1 s2"
proof -
  from assms(2,3) have "(a, s1) \<in> set (sessions st)" "(b, s2) \<in> set (sessions st)"
    by (auto dest: map_of_SomeD)
  with assms(1,4) show ?thesis
    by (fastforce simp: sessions_ok_def list_all_iff)
qed

section \<open>What a successful screenshot returns\<close>

lemma screenshot_Returned:
  assumes "screenshot env sessionId opts st = (Returned (ShotSuccess d m), st')"
  shows "\<exists>session st1. getSession env sessionId st = (Returned session, st1)
           \<and> m = shotMetadata session opts"
  using assms
  by (auto simp: screenshot_def screenshotTry_def Let_def do_ask_def
      split: prod.splits outcome.splits if_splits sum.splits)

lemma quiet_screenshot:
  "\<exists>d m st'. screenshot quietEnv None smallClip initialState = (Returned (ShotSuccess d m), st')"
  by (simp add: screenshot_def screenshotTry_def getSession_def createSession_def initialize_def
      do_act_def do_ask_def record_call_def waitBeforeShot_def quietEnv_def smallClip_def
      noOptions_def initialState_def Let_def map_of_map_set)

section \<open>Properties of cleanup\<close>

lemma closeAll_all:
  assumes "\<And>i. i < length ps \<Longrightarrow> act env (trace st @ closes (take i ps)) (closes ps ! i) = None"
  shows "closeAll env ps st = (Returned (), st\<lparr>trace := trace st @ closes ps\<rparr>)"
  using assms
proof (induction ps arbitrary: st)
  case Nil
  then show ?case by (simp add: closes_def)
next
  case (Cons p ps)
  from Cons.prems [of 0] have first: "act env (trace st) (ContextClose (browserContext (snd p))) = None"
    by (simp add: closes_def)
  have rest: "act env (trace (record_call (ContextClose (browserContext (snd p))) st)
                @ closes (take i ps)) (closes ps ! i) = None" if "i < length ps" for i
    using Cons.prems [of "Suc i"] that by (simp add: closes_def)
  from Cons.IH [OF rest] first show ?case
    by (simp add: do_act_def closes_def record_call_def)
qed

lemma closeAll_first_failure:
  assumes "i < length ps"
    and "\<And>j. j < i \<Longrightarrow> act env (trace st @ closes (take j ps)) (closes ps ! j) = None"
    and "act env (trace st @ closes (take i ps)) (closes ps ! i) = Some e"
  shows "closeAll env ps st = (Thrown e, st\<lparr>trace := trace st @ closes (take (Suc i) ps)\<rparr>)"
  using assms
proof (induction ps arbitrary: st i)
  case Nil
  then show ?case by simp
next
  case (Cons p ps)
  show ?case
  proof (cases i)
    case 0
    with Cons.prems(3) show ?thesis
      by (simp add: do_act_def closes_def record_call_def)
  next
    case (Suc n)
    from Cons.prems(2) [of 0] Suc
    have first: "act env (trace st) (ContextClose (browserContext (snd p))) = None"
      by (simp add: closes_def)
    have n: "n < length ps" using Cons.prems(1) Suc by simp
    have before: "act env (trace (record_call (ContextClose (browserContext (snd p))) st)
                    @ closes (take j ps)) (closes ps ! j) = None" if "j < n" for j
      using Cons.prems(2) [of "Suc j"] that Suc by (simp add: closes_def)
    have at: "act env (trace (record_call (ContextClose (browserContext (snd p))) st)
                @ closes (take n ps)) (closes ps ! n) = Some e"
      using Cons.prems(3) Suc by (simp add: closes_def)
    from Cons.IH [OF n before at] first Suc show ?thesis
      by (simp add: do_act_def closes_def record_call_def)
  qed
qed

text \<open>
  C4 (as amended). When no close throws, \<open>cleanup\<close> closes the context of every
  tracked session in the order of the map, then the browser, and leaves the map
  empty and the browser null. When the close of a session's context throws,
  \<open>cleanup\<close> ends there with that error: the later contexts and the browser are
  not closed, and the session map and the browser field stay as they were.
\<close>

theorem cleanup_closes_until_failure:
  "((\<forall>i < length (sessions st).
        act env (trace st @ closes (take i (sessions st))) (closes (sessions st) ! i) = None)
     \<and> (\<forall>b. browser st = Some b \<longrightarrow>
           act env (trace st @ closes (sessions st)) (BrowserClose b) = None)
     \<longrightarrow> cleanup env st =
           (Returned (),
            \<lparr>browser = None, sessions = [],
             trace = trace st @ closes (sessions st)
                       @ (case browser st of None \<Rightarrow> [] | Some b \<Rightarrow> [BrowserClose b])\<rparr>))
   \<and> (i < length (sessions st)
       \<and> (\<forall>j < i. act env (trace st @ closes (take j (sessions st)))
                     (closes (sessions st) ! j) = None)
       \<and> act env (trace st @ closes (take i (sessions st))) (closes (sessions st) ! i) = Some e
     \<longrightarrow> cleanup env st =
           (Thrown e, st\<lparr>trace := trace st @ closes (take (Suc i) (sessions st))\<rparr>))"
proof (intro conjI impI)
  assume h: "(\<forall>i < length (sessions st).
        act env (trace st @ closes (take i (sessions st))) (closes (sessions st) ! i) = None)
     \<and> (\<forall>b. browser st = Some b \<longrightarrow>
           act env (trace st @ closes (sessions st)) (BrowserClose b) = None)"
  then have "closeAll env (sessions st) st
      = (Returned (), st\<lparr>trace := trace st @ closes (sessions st)\<rparr>)"
    by (intro closeAll_all) simp
  with h show "cleanup env st =
      (Returned (),
       \<lparr>browser = None, sessions = [],
        trace = trace st @ closes (sessions st)
                  @ (case browser st of None \<Rightarrow> [] | Some b \<Rightarrow> [BrowserClose b])\<rparr>)"
    by (cases "browser st") (simp_all add: cleanup_def do_act_def record_call_def Let_def)
next
  assume h: "i < length (sessions st)
       \<and> (\<forall>j < i. act env (trace st @ closes (take j (sessions st)))
                     (closes (sessions st) ! j) = None)
       \<and> act env (trace st @ closes (take i (sessions st))) (closes (sessions st) ! i) = Some e"
  then have "closeAll env (sessions st) st
      = (Thrown e, st\<lparr>trace := trace st @ closes (take (Suc i) (sessions st))\<rparr>)"
    by (intro closeAll_first_failure) simp_all
  then show "cleanup env st =
      (Thrown e, st\<lparr>trace := trace st @ closes (take (Suc i) (sessions st))\<rparr>)"
    by (simp add: cleanup_def)
qed

lemma twoSessions_eq:
  "twoSessions =
     \<lparr>browser = Some 0,
      sessions =
        [(''a'', \<lparr>session_id = ''a'', browserContext = 1, page = 2, createdAt = 4,
                 lastActivity = 4, config = browserConfig quietEnv\<rparr>),
         (''b'', \<lparr>session_id = ''b'', browserContext = 4, page = 5, createdAt = 7,
                 lastActivity = 7, config = browserConfig quietEnv\<rparr>)],
      trace =
        [Launch False (launchArgs (browserConfig quietEnv)),
         NewContext 0 defaultViewport, NewPage 1, Helper ''initializeStealthMode'' 2,
         NewContext 0 defaultViewport, NewPage 4, Helper ''initializeStealthMode'' 5]\<rparr>"
  by (simp add: twoSessions_def getSession_def createSession_def initialize_def
      do_act_def record_call_def failingCloseEnv_def quietEnv_def initialState_def Let_def)

text \<open>
  The claim as first stated fails with two sessions when closing the first
  context throws: the second context and the browser are never closed and the
  map is not emptied.
\<close>

theorem cleanup_abort_counterexample:
  "fst (cleanup failingCloseEnv twoSessions)
     = Thrown ''Target page, context or browser has been closed''
   \<and> map fst (sessions twoSessions) = [''a'', ''b'']
   \<and> closes (sessions twoSessions) = [ContextClose 1, ContextClose 4]
   \<and> ContextClose 4 \<notin> set (trace (snd (cleanup failingCloseEnv twoSessions)))
   \<and> BrowserClose 0 \<notin> set (trace (snd (cleanup failingCloseEnv twoSessions)))
   \<and> sessions (snd (cleanup failingCloseEnv twoSessions)) \<noteq> []"
  by (simp add: twoSessions_eq cleanup_def do_act_def record_call_def closes_def
      failingCloseEnv_def quietEnv_def)

text \<open>Both cases on the state with two sessions.\<close>

theorem cleanup_closes_until_failure_witness:
  "cleanup quietEnv twoSessions =
     (Returned (),
      \<lparr>browser = None, sessions = [],
       trace = trace twoSessions @ [ContextClose 1, ContextClose 4, BrowserClose 0]\<rparr>)
   \<and> cleanup failingCloseEnv twoSessions =
     (Thrown ''Target page, context or browser has been closed'',
      twoSessions\<lparr>trace := trace twoSessions @ [ContextClose 1]\<rparr>)"
proof -
  have a: "(\<forall>i < length (sessions twoSessions).
        act quietEnv (trace twoSessions @ closes (take i (sessions twoSessions)))
          (closes (sessions twoSessions) ! i) = None)
     \<and> (\<forall>b. browser twoSessions = Some b \<longrightarrow>
           act quietEnv (trace twoSessions @ closes (sessions twoSessions)) (BrowserClose b) = None)"
    by (simp add: quietEnv_def)
  have b: "0 < length (sessions twoSessions)
       \<and> (\<forall>j < 0. act failingCloseEnv (trace twoSessions @ closes (take j (sessions twoSessions)))
                     (closes (sessions twoSessions) ! j) = None)
       \<and> act failingCloseEnv (trace twoSessions @ closes (take 0 (sessions twoSessions)))
           (closes (sessions twoSessions) ! 0)
         = Some ''Target page, context or browser has been closed''"
    by (simp add: twoSessions_eq failingCloseEnv_def closes_def)
  from cleanup_closes_until_failure [of twoSessions quietEnv 0
      "''Target page, context or browser has been closed''"] a
  have "cleanup quietEnv twoSessions =
     (Returned (),
      \<lparr>browser = None, sessions = [],
       trace = trace twoSessions @ closes (sessions twoSessions)
                 @ (case browser twoSessions of None \<Rightarrow> [] | Some b \<Rightarrow> [BrowserClose b])\<rparr>)"
    by blast
  moreover from cleanup_closes_until_failure [of twoSessions failingCloseEnv 0
      "''Target page, context or browser has been closed''"] b
  have "cleanup failingCloseEnv twoSessions =
     (Thrown ''Target page, context or browser has been closed'',
      twoSessions\<lparr>trace := trace twoSessions @ closes (take (Suc 0) (sessions twoSessions))\<rparr>)"
    by blast
  ultimately show ?thesis
    by (simp add: twoSessions_eq closes_def)
qed

section \<open>Properties of navigate\<close>

lemma gotos_append [simp]: "gotos (xs @ ys) = gotos xs @ gotos ys"
  by (simp add: gotos_def)

lemma createSession_gotos:
  "createSession env sid st = (r, st1) \<Longrightarrow> gotos (trace st1) = gotos (trace st)"
  by (auto simp: createSession_def initialize_def do_act_def record_call_def Let_def gotos_def
      split: if_splits option.splits prod.splits outcome.splits)

lemma getSession_gotos:
  "getSession env sid st = (r, st1) \<Longrightarrow> gotos (trace st1) = gotos (trace st)"
  by (auto simp: getSession_def Let_def dest: createSession_gotos
      split: if_splits option.splits prod.splits outcome.splits)

lemma valid_parses:
  "valid (validateUrl parser cfg url) \<Longrightarrow> \<exists>urlObj. parser url = Inr urlObj"
  by (cases "parser url") (simp_all add: validateUrl_def)

lemma navigateTry_gotos:
  assumes "urlParser env url = Inr urlObj"
  shows "gotos (trace (snd (navigateTry env session url opts st))) =
           gotos (trace st) @
           (if visitsHomepageFirst url
            then homeGoto env session urlObj opts #
                 (case gotoStatus env (trace st) (homeGoto env session urlObj opts) of
                    Inl e \<Rightarrow> []
                  | Inr response \<Rightarrow> [targetGoto env session url opts])
            else [targetGoto env session url opts])"
  using assms
  by (auto simp: navigateTry_def homepageFirst_def do_goto_def do_ask_def record_call_def
        gotos_def homeGoto_def targetGoto_def
      split: sum.splits prod.splits option.splits)

text \<open>
  C6 (as amended). For a URL that validation accepts, once the session is
  resolved, \<open>navigate\<close> navigates the session's page to the requested URL with
  the requested wait condition (default \<^verbatim>\<open>domcontentloaded\<close>) and timeout, and that
  is its only navigation -- unless the URL contains \<^verbatim>\<open>/products/\<close> and does not
  end in \<^verbatim>\<open>/\<close>: then it first navigates to the URL's origin, and goes on to the
  requested URL only when that navigation succeeded.
\<close>

theorem navigate_gotos:
  assumes ok: "valid (validateUrl (urlParser env) (securityConfig env) url)"
    and get: "getSession env sessionId st = (Returned session, st1)"
  shows "\<exists>urlObj. urlParser env url = Inr urlObj
           \<and> gotos (trace (snd (navigate env url sessionId opts st))) =
               gotos (trace st) @
               (if visitsHomepageFirst url
                then homeGoto env session urlObj opts #
                     (case gotoStatus env (trace st1) (homeGoto env session urlObj opts) of
                        Inl e \<Rightarrow> []
                      | Inr response \<Rightarrow> [targetGoto env session url opts])
                else [targetGoto env session url opts])"
proof -
  from valid_parses [OF ok] obtain urlObj where p: "urlParser env url = Inr urlObj" by blast
  have "snd (navigate env url sessionId opts st) = snd (navigateTry env session url opts st1)"
    using ok get by (simp add: navigate_def split: prod.splits)
  with navigateTry_gotos [OF p, of session opts st1] getSession_gotos [OF get] p
  show ?thesis by simp
qed

lemma quietEnv_fields:
  "urlParser quietEnv = sampleURL"
  "securityConfig quietEnv = exampleOnly"
  "act quietEnv = (\<lambda>history c. None)"
  "ask quietEnv = (\<lambda>history c. Inr ''hi'')"
  "ask_nullable quietEnv = (\<lambda>history c. Inr (Some ''hi''))"
  "gotoStatus quietEnv = (\<lambda>history c. Inr (Some 200))"
  "timeout (browserConfig quietEnv) = None"
  "viewport (browserConfig quietEnv) = None"
  by (simp_all add: quietEnv_def)

lemma widget_valid:
  "valid (validateUrl (urlParser quietEnv) (securityConfig quietEnv) widgetUrl)"
  by (simp add: validateUrl_def quietEnv_def sampleURL_def exampleOnly_def widgetUrl_def
      isBlocked_def isAllowed_def allowedProtocols_def)

lemma widget_session:
  "getSession quietEnv None initialState =
     (Returned \<lparr>session_id = ''session_1_k3j9x2m1q'', browserContext = 1, page = 2,
                createdAt = 4, lastActivity = 4, config = browserConfig quietEnv\<rparr>,
      \<lparr>browser = Some 0,
       sessions = [(''session_1_k3j9x2m1q'',
                    \<lparr>session_id = ''session_1_k3j9x2m1q'', browserContext = 1, page = 2,
                      createdAt = 4, lastActivity = 4, config = browserConfig quietEnv\<rparr>)],
       trace = [Launch False (launchArgs (browserConfig quietEnv)),
                NewContext 0 defaultViewport, NewPage 1, Helper ''initializeStealthMode'' 2]\<rparr>)"
  by (simp add: getSession_def createSession_def initialize_def generateSessionId_def
      show_nat.simps do_act_def record_call_def quietEnv_def initialState_def Let_def)

text \<open>A product page takes two navigations, the site's front page one.\<close>

theorem navigate_gotos_witness:
  "gotos (trace (snd (navigate quietEnv widgetUrl None noOptions initialState))) =
     [Goto 2 ''https://example.com'' ''domcontentloaded'' 30000,
      Goto 2 ''https://example.com/products/widget'' ''domcontentloaded'' 30000]
   \<and> gotos (trace (snd (navigate quietEnv ''https://example.com/'' None noOptions initialState))) =
     [Goto 2 ''https://example.com/'' ''domcontentloaded'' 30000]"
proof -
  have v: "valid (validateUrl (urlParser quietEnv) (securityConfig quietEnv)
      ''https://example.com/'')"
    by (simp add: validateUrl_def quietEnv_def sampleURL_def exampleOnly_def
        isBlocked_def isAllowed_def allowedProtocols_def)
  have home: "\<not> visitsHomepageFirst ''https://example.com/''"
    by (simp add: visitsHomepageFirst_def endsWith_def suffix_to_prefix)
  have widget: "visitsHomepageFirst widgetUrl"
    by (simp add: visitsHomepageFirst_def endsWith_def suffix_to_prefix widgetUrl_def)
  from navigate_gotos [OF widget_valid widget_session, of noOptions] widget
  have "gotos (trace (snd (navigate quietEnv widgetUrl None noOptions initialState))) =
     [Goto 2 ''https://example.com'' ''domcontentloaded'' 30000,
      Goto 2 ''https://example.com/products/widget'' ''domcontentloaded'' 30000]"
    by (auto simp: quietEnv_def sampleURL_def widgetUrl_def homeGoto_def targetGoto_def
        navTimeout_def noOptions_def initialState_def gotos_def)
  moreover from navigate_gotos [OF v widget_session, of noOptions] home
  have "gotos (trace (snd (navigate quietEnv ''https://example.com/'' None noOptions
      initialState))) = [Goto 2 ''https://example.com/'' ''domcontentloaded'' 30000]"
    by (auto simp: quietEnv_def sampleURL_def targetGoto_def
        navTimeout_def noOptions_def initialState_def gotos_def)
  ultimately show ?thesis by simp
qed

text \<open>
  The claim as first stated fails on an accepted product URL: two navigations
  are issued, and the first goes to the origin, not to the requested URL.
\<close>

theorem navigate_two_gotos_counterexample:
  "valid (validateUrl (urlParser quietEnv) (securityConfig quietEnv)
      ''https://example.com/products/widget'')
   \<and> gotos (trace (snd (navigate quietEnv ''https://example.com/products/widget'' None noOptions
        initialState))) =
     [Goto 2 ''https://example.com'' ''domcontentloaded'' 30000,
      Goto 2 ''https://example.com/products/widget'' ''domcontentloaded'' 30000]"
proof -
  have v: "valid (validateUrl (urlParser quietEnv) (securityConfig quietEnv)
      ''https://example.com/products/widget'')"
    using widget_valid by (simp add: widgetUrl_def)
  have widget: "visitsHomepageFirst ''https://example.com/products/widget''"
    by (simp add: visitsHomepageFirst_def endsWith_def suffix_to_prefix)
  have "gotos (trace (snd (navigate quietEnv ''https://example.com/products/widget'' None noOptions
        initialState))) =
     [Goto 2 ''https://example.com'' ''domcontentloaded'' 30000,
      Goto 2 ''https://example.com/products/widget'' ''domcontentloaded'' 30000]"
    using v widget
    by (simp add: navigate_def widget_session navigateTry_def homepageFirst_def sampleURL_def
        do_goto_def do_ask_def record_call_def gotos_def navTimeout_def noOptions_def
        quietEnv_fields)
  with v show ?thesis by simp
qed

section \<open>Properties of interactElement\<close>

lemma too_long_invalid: "10000 < length v \<Longrightarrow> \<not> valid (validateInputText v) \<and> v \<noteq> []"
  by (auto simp: validateInputText_def joi_validate_def)

lemma performAction_late:
  assumes "tooLongText opts \<or> unsupportedAction opts"
  shows "performAction env pg sel opts st = (Some (lateMessage opts), st)"
proof (cases "action opts = Some ''type''")
  case True
  with assms obtain v where v: "input_value opts = Some v" "10000 < length v"
    by (auto simp: tooLongText_def unsupportedAction_def supportedActions_def
        split: option.splits)
  with True too_long_invalid [OF v(2)] show ?thesis
    by (simp add: performAction_def lateMessage_def)
next
  case False
  with assms have "unsupportedAction opts" by (simp add: tooLongText_def)
  then show ?thesis
    by (auto simp: performAction_def lateMessage_def unsupportedAction_def supportedActions_def
        split: option.splits)
qed

text \<open>
  C3 (as amended). In \<open>interactElement\<close> an invalid selector is thrown to the
  caller before the session is resolved and before any call on the browser. A
  \<^verbatim>\<open>type\<close> action whose value is longer than 10000 code units, or an unsupported
  action name, is not thrown: it is found inside the \<^verbatim>\<open>try\<close>, after the session
  is resolved and the element has been located and waited for, and comes back
  as a failed result, which carries the validation message when the wait
  succeeded. Nothing is filled in.
\<close>

theorem interactElement_validation:
  "(\<not> valid (selectorValidation (selector opts)) \<longrightarrow>
      interactElement env sessionId opts st
        = (Thrown (error_text (selectorValidation (selector opts))), st))
   \<and> (valid (selectorValidation (selector opts))
       \<and> getSession env sessionId st = (Returned session, st1)
       \<and> (tooLongText opts \<or> unsupportedAction opts) \<longrightarrow>
      (\<exists>msg. interactElement env sessionId opts st
          = (Returned (InteractFailure msg),
             st1\<lparr>trace := trace st1 @
                [Locator (page session) (the (selector opts)),
                 WaitFor (page session) (the (selector opts))
                   (num_or (innerTimeout opts) 5000)]\<rparr>)
        \<and> (act env (trace st1 @ [Locator (page session) (the (selector opts))])
              (WaitFor (page session) (the (selector opts)) (num_or (innerTimeout opts) 5000))
              = None
            \<longrightarrow> msg = lateMessage opts)))"
proof (intro conjI impI)
  assume "\<not> valid (selectorValidation (selector opts))"
  then show "interactElement env sessionId opts st
      = (Thrown (error_text (selectorValidation (selector opts))), st)"
    by (simp add: interactElement_def)
next
  assume h: "valid (selectorValidation (selector opts))
       \<and> getSession env sessionId st = (Returned session, st1)
       \<and> (tooLongText opts \<or> unsupportedAction opts)"
  let ?sel = "the (selector opts)"
  let ?wait = "WaitFor (page session) ?sel (num_or (innerTimeout opts) 5000)"
  let ?st2 = "st1\<lparr>trace := trace st1 @ [Locator (page session) ?sel, ?wait]\<rparr>"
  from h have late: "\<And>st'. performAction env (page session) ?sel opts st'
      = (Some (lateMessage opts), st')"
    by (simp add: performAction_late)
  show "\<exists>msg. interactElement env sessionId opts st = (Returned (InteractFailure msg), ?st2)
      \<and> (act env (trace st1 @ [Locator (page session) ?sel]) ?wait = None
          \<longrightarrow> msg = lateMessage opts)"
  proof (cases "act env (trace st1 @ [Locator (page session) ?sel]) ?wait")
    case None
    with h late have "interactElement env sessionId opts st
        = (Returned (InteractFailure (lateMessage opts)), ?st2)"
      by (simp add: interactElement_def interactTry_def do_act_def record_call_def)
    then show ?thesis by blast
  next
    case (Some e)
    with h have "interactElement env sessionId opts st = (Returned (InteractFailure e), ?st2)"
      by (simp add: interactElement_def interactTry_def do_act_def record_call_def)
    with Some show ?thesis by simp
  qed
qed

lemma selector_q_valid: "valid (selectorValidation (Some ''#q''))"
  by (simp add: selectorValidation_def validateSelector_def joi_validate_def
      selectorPattern_def selectorChar_def isWhiteSpace_def dangerousSelectorPatterns_def
      lit_def char_eq_def canonicalize_def)

lemma long_message:
  "error_text (validateInputText (replicate 10001 CHR ''a''))
     = ''Invalid input text: '' @ [DQ]
         @ ''value'' @ [DQ] @ '' length must be less than or equal to 10000 characters long''"
  by (simp add: validateInputText_def joi_validate_def error_text_def reject_def show_nat.simps)

text \<open>A selector with angle brackets is thrown at once; an over-long text comes back late.\<close>

theorem interactElement_validation_witness:
  "interactElement quietEnv None (noOptions\<lparr>selector := Some ''<script>''\<rparr>) initialState
     = (Thrown (error_text (selectorValidation (Some ''<script>''))), initialState)
   \<and> (\<exists>st'. interactElement quietEnv None longType initialState
          = (Returned (InteractFailure
               (''Invalid input text: '' @ [DQ] @ ''value'' @ [DQ]
                  @ '' length must be less than or equal to 10000 characters long'')), st')
        \<and> trace st' = trace (snd (getSession quietEnv None initialState))
            @ [Locator 2 ''#q'', WaitFor 2 ''#q'' 5000])"
proof -
  have bad: "\<not> valid (selectorValidation (selector (noOptions\<lparr>selector := Some ''<script>''\<rparr>)))"
    by (simp add: selectorValidation_def validateSelector_def joi_validate_def
        selectorPattern_def selectorChar_def isWhiteSpace_def)
  from interactElement_validation [of "noOptions\<lparr>selector := Some ''<script>''\<rparr>"
      quietEnv None initialState] bad
  have first: "interactElement quietEnv None (noOptions\<lparr>selector := Some ''<script>''\<rparr>)
      initialState = (Thrown (error_text (selectorValidation (Some ''<script>''))), initialState)"
    by simp
  from widget_session obtain session st1
    where get: "getSession quietEnv None initialState = (Returned session, st1)"
      and pg: "page session = 2"
    by simp
  have sel: "valid (selectorValidation (selector longType))"
    using selector_q_valid by (simp add: longType_def)
  have late: "tooLongText longType"
    by (simp add: longType_def tooLongText_def)
  have quiet: "act quietEnv history c = None" for history c
    by (simp add: quietEnv_def)
  from interactElement_validation [of longType quietEnv None initialState session st1]
    sel get late quiet pg
  have "interactElement quietEnv None longType initialState
      = (Returned (InteractFailure (lateMessage longType)),
         st1\<lparr>trace := trace st1 @ [Locator 2 ''#q'', WaitFor 2 ''#q'' 5000]\<rparr>)"
    by (auto simp: longType_def innerTimeout_def noOptions_def)
  moreover have "lateMessage longType = ''Invalid input text: '' @ [DQ] @ ''value'' @ [DQ]
      @ '' length must be less than or equal to 10000 characters long''"
    using long_message by (simp add: lateMessage_def longType_def)
  ultimately show ?thesis using first get by simp
qed

text \<open>
  The claim as first stated fails for an over-long text and for an unknown
  action: each is returned as a failed result, after the element was located
  and waited for.
\<close>

theorem interactElement_soft_counterexample:
  "10000 < length (replicate 10001 CHR ''a'')
   \<and> fst (interactElement quietEnv None longType initialState)
       = Returned (InteractFailure
           (''Invalid input text: '' @ [DQ] @ ''value'' @ [DQ]
              @ '' length must be less than or equal to 10000 characters long''))
   \<and> drop 4 (trace (snd (interactElement quietEnv None longType initialState)))
       = [Locator 2 ''#q'', WaitFor 2 ''#q'' 5000]
   \<and> fst (interactElement quietEnv None danceAction initialState)
       = Returned (InteractFailure ''Unsupported action: dance'')
   \<and> drop 4 (trace (snd (interactElement quietEnv None danceAction initialState)))
       = [Locator 2 ''#q'', WaitFor 2 ''#q'' 5000]"
proof -
  have sel: "valid (selectorValidation (Some ''#q''))" by (rule selector_q_valid)
  have long: "\<not> valid (validateInputText (replicate 10001 CHR ''a''))"
    by (simp add: too_long_invalid)
  have "interactElement quietEnv None longType initialState
      = (Returned (InteractFailure (error_text (validateInputText (replicate 10001 CHR ''a'')))),
         (snd (getSession quietEnv None initialState))
           \<lparr>trace := trace (snd (getSession quietEnv None initialState))
              @ [Locator 2 ''#q'', WaitFor 2 ''#q'' 5000]\<rparr>)"
    using sel long
    by (simp add: interactElement_def interactTry_def performAction_def widget_session
        longType_def noOptions_def innerTimeout_def do_act_def record_call_def quietEnv_fields)
  moreover have "interactElement quietEnv None danceAction initialState
      = (Returned (InteractFailure ''Unsupported action: dance''),
         (snd (getSession quietEnv None initialState))
           \<lparr>trace := trace (snd (getSession quietEnv None initialState))
              @ [Locator 2 ''#q'', WaitFor 2 ''#q'' 5000]\<rparr>)"
    using sel
    by (simp add: interactElement_def interactTry_def performAction_def widget_session
        danceAction_def noOptions_def innerTimeout_def do_act_def record_call_def quietEnv_fields)
  ultimately show ?thesis
    by (simp add: long_message widget_session)
qed

section \<open>The state with two sessions\<close>

lemma twoSessions_ok: "sessions_ok quietEnv twoSessions"
  by (simp add: sessions_ok_def session_ok_def separate_def twoSessions_eq)

lemma twoSessions_a:
  "map_of (sessions twoSessions) ''a'' =
     Some \<lparr>session_id = ''a'', browserContext = 1, page = 2, createdAt = 4,
           lastActivity = 4, config = browserConfig quietEnv\<rparr>"
  by (simp add: twoSessions_eq)

lemma quiet_getSession:
  assumes "\<And>history c. act env history c = None"
  shows "\<exists>session st1. getSession env sessionId st = (Returned session, st1)"
  using assms
  by (cases sessionId)
     (auto simp: getSession_def createSession_def initialize_def do_act_def record_call_def
        Let_def map_of_map_set
      split: option.splits)

section \<open>Every reachable state has a well-formed session map\<close>

lemma sessions_ok_subset:
  assumes ok: "sessions_ok env st"
    and sub: "set (sessions st1) \<subseteq> set (sessions st)"
    and d: "distinct (map fst (sessions st1))"
    and len: "length (trace st) \<le> length (trace st1)"
  shows "sessions_ok env st1"
proof -
  from ok have each: "\<And>p. p \<in> set (sessions st) \<Longrightarrow> session_ok env st p"
    and pair: "\<And>p1 p2. p1 \<in> set (sessions st) \<Longrightarrow> p2 \<in> set (sessions st) \<Longrightarrow>
        fst p1 = fst p2 \<or> separate (snd p1) (snd p2)"
    by (auto simp: sessions_ok_def list_all_iff)
  have "session_ok env st1 p" if "p \<in> set (sessions st1)" for p
    using each [of p] that sub len by (auto simp: session_ok_def)
  moreover have "fst p1 = fst p2 \<or> separate (snd p1) (snd p2)"
    if "p1 \<in> set (sessions st1)" "p2 \<in> set (sessions st1)" for p1 p2
    using pair [of p1 p2] that sub by auto
  ultimately show ?thesis
    using d by (simp add: sessions_ok_def list_all_iff)
qed

lemma sessions_ok_later:
  assumes ok: "sessions_ok env st"
    and same: "sessions st1 = sessions st"
    and len: "length (trace st) \<le> length (trace st1)"
  shows "sessions_ok env st1"
proof (rule sessions_ok_subset [OF ok _ _ len])
  show "set (sessions st1) \<subseteq> set (sessions st)"
    by (simp add: same)
  show "distinct (map fst (sessions st1))"
    using ok by (simp add: same sessions_ok_def)
qed

lemma initialize_keeps:
  "sessions (snd (initialize env st)) = sessions st
   \<and> length (trace st) \<le> length (trace (snd (initialize env st)))"
  by (simp add: initialize_def do_act_def record_call_def split: option.splits)

lemma createSession_Thrown:
  "createSession env sid st = (Thrown e, st1) \<Longrightarrow>
     sessions st1 = sessions st \<and> length (trace st) \<le> length (trace st1)"
  by (auto simp: createSession_def initialize_def do_act_def record_call_def Let_def
      split: if_splits option.splits prod.splits outcome.splits)

lemma createSession_ok:
  assumes ok: "sessions_ok env st"
  shows "sessions_ok env (snd (createSession env sid st))"
proof (cases "createSession env sid st")
  case (Pair r st1)
  show ?thesis
  proof (cases r)
    case (Thrown e)
    with Pair createSession_Thrown [of env sid st e st1] ok show ?thesis
      by (auto intro: sessions_ok_later)
  next
    case (Returned k)
    with Pair have c: "createSession env sid st = (Returned k, st1)" by simp
    from createSession_Returned [OF c] obtain s'
      where s': "sessions st1 = map_set k s' (sessions st)"
        "length (trace st) \<le> browserContext s'" "browserContext s' < page s'"
        "page s' < length (trace st1)" "config s' = browserConfig env" "k \<noteq> []"
      by blast
    from ok have each: "\<And>p. p \<in> set (sessions st) \<Longrightarrow> session_ok env st p"
      by (auto simp: sessions_ok_def list_all_iff)
    have new: "session_ok env st1 (k, s')"
      using s' by (simp add: session_ok_def)
    have sep: "separate s' (snd p)" if "p \<in> set (sessions st)" for p
      using each [OF that] s' by (auto simp: session_ok_def separate_def)
    have "sessions_ok env st1"
      by (rule sessions_ok_map_set [OF ok new sep createSession_trace [OF c] s'(1)])
    with Pair show ?thesis by simp
  qed
qed

lemma createSession_stored:
  "createSession env sid st = (Returned k, st1) \<Longrightarrow> map_of (sessions st1) k \<noteq> None"
  using createSession_Returned [of env sid st k st1] by (auto simp: map_of_map_set)

lemma getSession_Thrown:
  assumes "getSession env sid st = (Thrown e, st1)"
  shows "sessions st1 = sessions st \<and> length (trace st) \<le> length (trace st1)"
proof -
  have "createSession env sid st = (Thrown e, st1)"
  proof (cases "createSession env sid st")
    case (Pair r st2)
    show ?thesis
    proof (cases r)
      case (Thrown e2)
      with Pair assms show ?thesis
        by (auto simp: getSession_def Let_def split: if_splits option.splits)
    next
      case (Returned k)
      with Pair createSession_stored [of env sid st k st2] assms show ?thesis
        by (auto simp: getSession_def Let_def split: if_splits option.splits)
    qed
  qed
  then show ?thesis by (rule createSession_Thrown)
qed

lemma getSession_trace:
  "getSession env sid st = (r, st1) \<Longrightarrow> length (trace st) \<le> length (trace st1)"
  by (auto simp: getSession_def Let_def dest: createSession_trace
      split: if_splits option.splits prod.splits outcome.splits)

lemma getSession_ok:
  assumes ok: "sessions_ok env st"
  shows "sessions_ok env (snd (getSession env sid st))"
proof (cases "getSession env sid st")
  case (Pair r st1)
  show ?thesis
  proof (cases r)
    case (Thrown e)
    with Pair getSession_Thrown [of env sid st e st1] ok show ?thesis
      by (auto intro: sessions_ok_later)
  next
    case (Returned s)
    with Pair getSession_Returned [OF ok, of sid s st1] show ?thesis by simp
  qed
qed

lemma filter_keys_distinct: "distinct (map fst m) \<Longrightarrow> distinct (map fst (filter P m))"
  by (induction m) auto

lemma closeSession_ok:
  assumes ok: "sessions_ok env st"
  shows "sessions_ok env (snd (closeSession env k st))"
proof -
  from ok have d: "distinct (map fst (sessions st))" by (simp add: sessions_ok_def)
  have "set (sessions (snd (closeSession env k st))) \<subseteq> set (sessions st)"
    by (auto simp: closeSession_def do_act_def record_call_def map_delete_def
        split: option.splits)
  moreover have "distinct (map fst (sessions (snd (closeSession env k st))))"
    using d
    by (auto simp: closeSession_def do_act_def record_call_def map_delete_def
        filter_keys_distinct split: option.splits)
  moreover have "length (trace st) \<le> length (trace (snd (closeSession env k st)))"
    by (auto simp: closeSession_def do_act_def record_call_def split: option.splits)
  ultimately show ?thesis by (rule sessions_ok_subset [OF ok])
qed

lemma closeAll_keeps:
  "sessions (snd (closeAll env ps st)) = sessions st
   \<and> browser (snd (closeAll env ps st)) = browser st
   \<and> length (trace st) \<le> length (trace (snd (closeAll env ps st)))"
proof (induction ps arbitrary: st)
  case Nil
  then show ?case by simp
next
  case (Cons p ps)
  from Cons [of "record_call (ContextClose (browserContext (snd p))) st"] show ?case
    by (auto simp: do_act_def split: option.splits)
qed

lemma cleanup_ok:
  assumes ok: "sessions_ok env st"
  shows "sessions_ok env (snd (cleanup env st))"
proof -
  from ok have d: "distinct (map fst (sessions st))" by (simp add: sessions_ok_def)
  obtain r st1 where c: "closeAll env (sessions st) st = (r, st1)" by (cases "closeAll env (sessions st) st")
  with closeAll_keeps [of env "sessions st" st]
  have k: "sessions st1 = sessions st" "length (trace st) \<le> length (trace st1)" by simp_all
  have "set (sessions (snd (cleanup env st))) \<subseteq> set (sessions st)"
    using c k by (auto simp: cleanup_def do_act_def record_call_def Let_def
        split: option.splits outcome.splits)
  moreover have "distinct (map fst (sessions (snd (cleanup env st))))"
    using c k d by (auto simp: cleanup_def do_act_def record_call_def Let_def
        split: option.splits outcome.splits)
  moreover have "length (trace st) \<le> length (trace (snd (cleanup env st)))"
    using c k by (auto simp: cleanup_def do_act_def record_call_def Let_def
        split: option.splits outcome.splits)
  ultimately show ?thesis by (rule sessions_ok_subset [OF ok])
qed

lemma navigateTry_keeps:
  "sessions (snd (navigateTry env session url opts st)) = sessions st
   \<and> length (trace st) \<le> length (trace (snd (navigateTry env session url opts st)))"
  by (auto simp: navigateTry_def homepageFirst_def do_goto_def do_ask_def record_call_def
      split: sum.splits prod.splits option.splits)

lemma waitBeforeShot_keeps:
  "sessions (waitBeforeShot env session opts st) = sessions st
   \<and> length (trace st) \<le> length (trace (waitBeforeShot env session opts st))"
  by (simp add: waitBeforeShot_def Let_def do_act_def split: option.split)

lemma screenshotTry_keeps:
  "sessions (snd (screenshotTry env session opts st)) = sessions st
   \<and> length (trace st) \<le> length (trace (snd (screenshotTry env session opts st)))"
  using waitBeforeShot_keeps [of env session opts st]
  by (simp add: screenshotTry_def Let_def do_ask_def split: sum.split)

lemma extractTextContent_keeps:
  "sessions (snd (extractTextContent env pg st)) = sessions st
   \<and> length (trace st) \<le> length (trace (snd (extractTextContent env pg st)))"
  by (auto simp: extractTextContent_def do_ask_nullable_def record_call_def
      split: prod.splits option.splits)

lemma extractHtmlContent_keeps:
  "sessions (snd (extractHtmlContent env pg st)) = sessions st
   \<and> length (trace st) \<le> length (trace (snd (extractHtmlContent env pg st)))"
  by (auto simp: extractHtmlContent_def do_ask_nullable_def record_call_def
      split: prod.splits bool.splits)

lemma extractFromPage_keeps:
  "sessions (snd (extractFromPage env pg fmt st)) = sessions st
   \<and> length (trace st) \<le> length (trace (snd (extractFromPage env pg fmt st)))"
  using extractTextContent_keeps [of env pg st] extractHtmlContent_keeps [of env pg st]
  by (auto simp: extractFromPage_def split: prod.splits)

lemma extractFromElement_keeps:
  "sessions (snd (extractFromElement env pg sel fmt st)) = sessions st
   \<and> length (trace st) \<le> length (trace (snd (extractFromElement env pg sel fmt st)))"
  by (auto simp: extractFromElement_def do_ask_def do_ask_nullable_def record_call_def Let_def
      split: prod.splits sum.splits)

lemma contentResult_keeps:
  "sessions (snd (contentResult env pg content st)) = sessions st
   \<and> length (trace st) \<le> length (trace (snd (contentResult env pg content st)))"
  by (simp add: contentResult_def Let_def)

lemma extractContentTry_keeps:
  "sessions (snd (extractContentTry env session opts st)) = sessions st
   \<and> length (trace st) \<le> length (trace (snd (extractContentTry env session opts st)))"
proof -
  let ?st1 = "waitForPageReady env (page session) st"
  have w: "sessions ?st1 = sessions st" "length (trace st) \<le> length (trace ?st1)"
    by (simp_all add: waitForPageReady_def)
  have result: "sessions (snd (contentResult env (page session) content st2)) = sessions st
      \<and> length (trace st) \<le> length (trace (snd (contentResult env (page session) content st2)))"
    if "sessions st2 = sessions st" "length (trace st) \<le> length (trace st2)" for content st2
    using contentResult_keeps [of env "page session" content st2] that by simp
  show ?thesis
  proof (cases "truthy (selector opts)")
    case True
    show ?thesis
    proof (cases "valid (validateSelector (the (selector opts)))")
      case False
      with True w show ?thesis by (simp add: extractContentTry_def Let_def)
    next
      case valid: True
      obtain r st2 where e: "extractFromElement env (page session) (the (selector opts))
          (format opts) ?st1 = (r, st2)"
        by (cases "extractFromElement env (page session) (the (selector opts)) (format opts) ?st1")
      with extractFromElement_keeps [of env "page session" "the (selector opts)" "format opts" ?st1]
      have k: "sessions st2 = sessions st" "length (trace st) \<le> length (trace st2)"
        using w by simp_all
      show ?thesis
      proof (cases r)
        case (Inl err)
        with True valid e k show ?thesis by (simp add: extractContentTry_def Let_def)
      next
        case (Inr content)
        with True valid e result [OF k] show ?thesis by (simp add: extractContentTry_def Let_def)
      qed
    qed
  next
    case False
    obtain content st2 where e: "extractFromPage env (page session) (format opts) ?st1
        = (content, st2)"
      by (cases "extractFromPage env (page session) (format opts) ?st1")
    with extractFromPage_keeps [of env "page session" "format opts" ?st1]
    have k: "sessions st2 = sessions st" "length (trace st) \<le> length (trace st2)"
      using w by simp_all
    show ?thesis
      using False e result [OF k] by (simp add: extractContentTry_def Let_def)
  qed
qed

lemma performAction_keeps:
  "sessions (snd (performAction env pg sel opts st)) = sessions st
   \<and> length (trace st) \<le> length (trace (snd (performAction env pg sel opts st)))"
  by (simp add: performAction_def do_act_def)

lemma elementInfo_keeps:
  "sessions (snd (elementInfo env pg sel st)) = sessions st
   \<and> length (trace st) \<le> length (trace (snd (elementInfo env pg sel st)))"
  by (simp add: elementInfo_def do_ask_def do_ask_nullable_def split: sum.splits)

lemma interactTry_keeps:
  "sessions (snd (interactTry env session sel opts st)) = sessions st
   \<and> length (trace st) \<le> length (trace (snd (interactTry env session sel opts st)))"
proof -
  let ?st1 = "record_call (WaitFor (page session) sel (num_or (innerTimeout opts) 5000))
      (record_call (Locator (page session) sel) st)"
  obtain r st2 where p: "performAction env (page session) sel opts ?st1 = (r, st2)"
    by (cases "performAction env (page session) sel opts ?st1")
  with performAction_keeps [of env "page session" sel opts ?st1]
  have k: "sessions st2 = sessions st" "length (trace st) \<le> length (trace st2)"
    by simp_all
  with elementInfo_keeps [of env "page session" sel st2]
  have i: "sessions (snd (elementInfo env (page session) sel st2)) = sessions st"
    "length (trace st) \<le> length (trace (snd (elementInfo env (page session) sel st2)))"
    by simp_all
  show ?thesis
    using p k i by (cases r) (simp_all add: interactTry_def do_act_def split: option.splits)
qed

lemma after_session:
  assumes ok: "sessions_ok env st"
    and get: "getSession env sid st = (Returned session, st1)"
    and keeps: "sessions st2 = sessions st1" "length (trace st1) \<le> length (trace st2)"
  shows "sessions_ok env st2"
  using getSession_ok [OF ok, of sid] get keeps by (auto intro: sessions_ok_later)

lemma navigate_ok:
  assumes ok: "sessions_ok env st"
  shows "sessions_ok env (snd (navigate env url sid opts st))"
proof (cases "getSession env sid st")
  case (Pair r st1)
  show ?thesis
  proof (cases r)
    case (Thrown e)
    with Pair getSession_ok [OF ok, of sid] ok show ?thesis
      by (auto simp: navigate_def Let_def)
  next
    case (Returned session)
    with Pair ok navigateTry_keeps [of env session url opts st1]
      after_session [OF ok, of sid session st1 "snd (navigateTry env session url opts st1)"]
    show ?thesis
      by (auto simp: navigate_def Let_def split: prod.splits)
  qed
qed

lemma screenshot_ok:
  assumes ok: "sessions_ok env st"
  shows "sessions_ok env (snd (screenshot env sid opts st))"
proof (cases "getSession env sid st")
  case (Pair r st1)
  show ?thesis
  proof (cases r)
    case (Thrown e)
    with Pair getSession_ok [OF ok, of sid] show ?thesis
      by (simp add: screenshot_def)
  next
    case (Returned session)
    with Pair screenshotTry_keeps [of env session opts st1]
      after_session [OF ok, of sid session st1 "snd (screenshotTry env session opts st1)"]
    show ?thesis
      by (auto simp: screenshot_def split: prod.splits)
  qed
qed

lemma extractContent_ok:
  assumes ok: "sessions_ok env st"
  shows "sessions_ok env (snd (extractContent env sid opts st))"
proof (cases "getSession env sid st")
  case (Pair r st1)
  show ?thesis
  proof (cases r)
    case (Thrown e)
    with Pair getSession_ok [OF ok, of sid] show ?thesis
      by (simp add: extractContent_def)
  next
    case (Returned session)
    with Pair extractContentTry_keeps [of env session opts st1]
      after_session [OF ok, of sid session st1 "snd (extractContentTry env session opts st1)"]
    show ?thesis
      by (auto simp: extractContent_def split: prod.splits)
  qed
qed

lemma interactElement_ok:
  assumes ok: "sessions_ok env st"
  shows "sessions_ok env (snd (interactElement env sid opts st))"
proof (cases "getSession env sid st")
  case (Pair r st1)
  show ?thesis
  proof (cases r)
    case (Thrown e)
    with Pair getSession_ok [OF ok, of sid] ok show ?thesis
      by (auto simp: interactElement_def)
  next
    case (Returned session)
    with Pair ok interactTry_keeps [of env session "the (selector opts)" opts st1]
      after_session [OF ok, of sid session st1
        "snd (interactTry env session (the (selector opts)) opts st1)"]
    show ?thesis
      by (auto simp: interactElement_def split: prod.splits)
  qed
qed

lemma executeScript_ok:
  assumes ok: "sessions_ok env st"
  shows "sessions_ok env (snd (executeScript env sid script scriptArgs st))"
proof (cases "getSession env sid st")
  case (Pair r st1)
  show ?thesis
  proof (cases r)
    case (Thrown e)
    with Pair getSession_ok [OF ok, of sid] ok show ?thesis
      by (auto simp: executeScript_def)
  next
    case (Returned session)
    with Pair ok after_session [OF ok, of sid session st1]
    show ?thesis
      by (auto simp: executeScript_def do_ask_def record_call_def split: prod.splits sum.splits)
  qed
qed

lemma reachable_sessions_ok: "reachable env st \<Longrightarrow> sessions_ok env st"
proof (induction rule: reachable.induct)
  case constructed
  show ?case by (rule sessions_ok_initial)
next
  case (after_initialize st)
  show ?case
    using after_initialize.IH initialize_keeps [of env st] by (auto intro: sessions_ok_later)
next
  case (after_createSession st sid)
  show ?case using after_createSession.IH by (rule createSession_ok)
next
  case (after_getSession st sid)
  show ?case using after_getSession.IH by (rule getSession_ok)
next
  case (after_closeSession st k)
  show ?case using after_closeSession.IH by (rule closeSession_ok)
next
  case (after_cleanup st)
  show ?case using after_cleanup.IH by (rule cleanup_ok)
next
  case (after_navigate st url sid opts)
  show ?case using after_navigate.IH by (rule navigate_ok)
next
  case (after_screenshot st sid opts)
  show ?case using after_screenshot.IH by (rule screenshot_ok)
next
  case (after_extractContent st sid opts)
  show ?case using after_extractContent.IH by (rule extractContent_ok)
next
  case (after_interactElement st sid opts)
  show ?case using after_interactElement.IH by (rule interactElement_ok)
next
  case (after_executeScript st sid script scriptArgs)
  show ?case using after_executeScript.IH by (rule executeScript_ok)
qed

section \<open>Sessions and screenshots in reachable states\<close>

lemma twoSessions_reachable: "reachable quietEnv twoSessions"
proof -
  have eq: "twoSessions =
      snd (getSession quietEnv (Some ''b'') (snd (getSession quietEnv (Some ''a'') initialState)))"
    by (simp add: twoSessions_eq getSession_def createSession_def initialize_def
        do_act_def record_call_def quietEnv_def initialState_def Let_def)
  have "reachable quietEnv
      (snd (getSession quietEnv (Some ''b'') (snd (getSession quietEnv (Some ''a'') initialState))))"
    by (intro reachable.after_getSession reachable.constructed)
  then show ?thesis
    by (simp only: eq)
qed

text \<open>
  C7. In every reachable state, two calls of \<open>getSession\<close> with
  the same known identifier return the stored session's context and page both
  times, add no key to the map and make no call on the browser; calls with two
  different (non-empty) identifiers return sessions that share neither context
  nor page.
\<close>

theorem getSession_same_and_different:
  assumes reach: "reachable env st"
  shows "(map_of (sessions st) a = Some s \<longrightarrow>
            (\<exists>s1 st1 s2 st2.
               getSession env (Some a) st = (Returned s1, st1)
               \<and> getSession env (Some a) st1 = (Returned s2, st2)
               \<and> browserContext s1 = browserContext s \<and> page s1 = page s
               \<and> browserContext s2 = browserContext s \<and> page s2 = page s
               \<and> map fst (sessions st2) = map fst (sessions st)
               \<and> trace st2 = trace st))
       \<and> (a \<noteq> [] \<and> b \<noteq> [] \<and> a \<noteq> b
            \<and> getSession env (Some a) st = (Returned s1', st1')
            \<and> getSession env (Some b) st1' = (Returned s2', st2') \<longrightarrow>
            separate s1' s2')"
proof (intro conjI impI)
  from reach have ok: "sessions_ok env st" by (rule reachable_sessions_ok)
  assume known: "map_of (sessions st) a = Some s"
  then have "(a, s) \<in> set (sessions st)" by (auto dest: map_of_SomeD)
  with ok have a: "a \<noteq> []" by (auto simp: sessions_ok_def list_all_iff session_ok_def)
  define s1 where "s1 = s\<lparr>lastActivity := clock env (trace st)\<rparr>"
  define st1 where "st1 = st\<lparr>sessions := map_set a s1 (sessions st)\<rparr>"
  define s2 where "s2 = s1\<lparr>lastActivity := clock env (trace st1)\<rparr>"
  define st2 where "st2 = st1\<lparr>sessions := map_set a s2 (sessions st1)\<rparr>"
  have g1: "getSession env (Some a) st = (Returned s1, st1)"
    unfolding s1_def st1_def by (rule getSession_known [OF a known])
  have "map_of (sessions st1) a = Some s1" by (simp add: st1_def map_of_map_set)
  then have g2: "getSession env (Some a) st1 = (Returned s2, st2)"
    unfolding s2_def st2_def by (rule getSession_known [OF a])
  have k: "a \<in> set (map fst (sessions st))"
    using \<open>(a, s) \<in> set (sessions st)\<close> by force
  have "map fst (sessions st2) = map fst (sessions st)"
    using k by (simp add: st2_def st1_def map_fst_map_set)
  moreover have "trace st2 = trace st" by (simp add: st2_def st1_def)
  ultimately show "\<exists>s1 st1 s2 st2.
      getSession env (Some a) st = (Returned s1, st1)
      \<and> getSession env (Some a) st1 = (Returned s2, st2)
      \<and> browserContext s1 = browserContext s \<and> page s1 = page s
      \<and> browserContext s2 = browserContext s \<and> page s2 = page s
      \<and> map fst (sessions st2) = map fst (sessions st)
      \<and> trace st2 = trace st"
    using g1 g2 by (intro exI [of _ s1] exI [of _ st1] exI [of _ s2] exI [of _ st2])
      (simp add: s1_def s2_def)
next
  from reach have ok: "sessions_ok env st" by (rule reachable_sessions_ok)
  assume h: "a \<noteq> [] \<and> b \<noteq> [] \<and> a \<noteq> b
      \<and> getSession env (Some a) st = (Returned s1', st1')
      \<and> getSession env (Some b) st1' = (Returned s2', st2')"
  from getSession_Returned [OF ok, of "Some a" s1' st1'] h
  have ok1: "sessions_ok env st1'" and m1: "map_of (sessions st1') a = Some s1'"
    by auto
  from getSession_Returned [OF ok1, of "Some b" s2' st2'] h
  obtain s' where ok2: "sessions_ok env st2'" and m2: "map_of (sessions st2') b = Some s2'"
    and upd: "sessions st2' = map_set b s' (sessions st1')"
    by auto
  from upd m1 h have "map_of (sessions st2') a = Some s1'"
    by (simp add: map_of_map_set)
  with ok2 m2 h show "separate s1' s2'"
    by (intro sessions_ok_separate [where a = a and b = b]) auto
qed

text \<open>
  With two sessions \<^verbatim>\<open>a\<close> and \<^verbatim>\<open>b\<close>: asking for \<^verbatim>\<open>a\<close> twice gives context 1
  and page 2 both times; asking for \<^verbatim>\<open>a\<close> and then for the new \<^verbatim>\<open>c\<close> gives
  separate sessions.
\<close>

theorem getSession_same_and_different_witness:
  "(\<exists>s1 st1 s2 st2.
      getSession quietEnv (Some ''a'') twoSessions = (Returned s1, st1)
      \<and> getSession quietEnv (Some ''a'') st1 = (Returned s2, st2)
      \<and> browserContext s1 = 1 \<and> page s1 = 2 \<and> browserContext s2 = 1 \<and> page s2 = 2
      \<and> map fst (sessions st2) = [''a'', ''b''] \<and> trace st2 = trace twoSessions)
   \<and> (\<exists>s1 st1 s2 st2.
      getSession quietEnv (Some ''a'') twoSessions = (Returned s1, st1)
      \<and> getSession quietEnv (Some ''c'') st1 = (Returned s2, st2)
      \<and> separate s1 s2)"
proof -
  have quiet: "\<And>history c. act quietEnv history c = None"
    by (simp add: quietEnv_def)
  from quiet_getSession [OF quiet] obtain s1 st1
    where g1: "getSession quietEnv (Some ''a'') twoSessions = (Returned s1, st1)"
    by blast
  from quiet_getSession [OF quiet] obtain s2 st2
    where g2: "getSession quietEnv (Some ''c'') st1 = (Returned s2, st2)"
    by blast
  note inst = getSession_same_and_different [OF twoSessions_reachable,
      of "''a''" "\<lparr>session_id = ''a'', browserContext = 1, page = 2, createdAt = 4,
           lastActivity = 4, config = browserConfig quietEnv\<rparr>" "''c''" s1 st1 s2 st2]
  from inst twoSessions_a have
    "\<exists>s1 st1 s2 st2.
      getSession quietEnv (Some ''a'') twoSessions = (Returned s1, st1)
      \<and> getSession quietEnv (Some ''a'') st1 = (Returned s2, st2)
      \<and> browserContext s1 = 1 \<and> page s1 = 2 \<and> browserContext s2 = 1 \<and> page s2 = 2
      \<and> map fst (sessions st2) = [''a'', ''b''] \<and> trace st2 = trace twoSessions"
    by (simp add: twoSessions_eq)
  moreover from inst g1 g2 have "separate s1 s2"
    by simp
  ultimately show ?thesis using g1 g2 by blast
qed

text \<open>
  C10 (as amended). In a successful screenshot result, in any reachable state,
  the metadata's width is the clip rectangle's width when a clip is supplied and
  its width is not zero; otherwise the configured viewport's width when a
  viewport is configured and its width is not zero; otherwise 1280. The height
  is chosen the same way, on its own, with 720 as the last resort. Both are read
  from the options and the configuration alone: the captured image does not
  enter, so for a full-page or element capture they need not be the image's
  dimensions.
\<close>

theorem screenshot_metadata_from_options:
  assumes reach: "reachable env st"
    and shot: "screenshot env sessionId opts st = (Returned (ShotSuccess d m), st')"
  shows "width m =
           (if (\<exists>c. clip opts = Some c \<and> width c \<noteq> 0) then width (the (clip opts))
            else if (\<exists>v. viewport (browserConfig env) = Some v \<and> width v \<noteq> 0)
              then width (the (viewport (browserConfig env)))
            else 1280)
       \<and> height m =
           (if (\<exists>c. clip opts = Some c \<and> height c \<noteq> 0) then height (the (clip opts))
            else if (\<exists>v. viewport (browserConfig env) = Some v \<and> height v \<noteq> 0)
              then height (the (viewport (browserConfig env)))
            else 720)"
proof -
  from reach have ok: "sessions_ok env st" by (rule reachable_sessions_ok)
  from screenshot_Returned [OF shot] obtain session st1
    where get: "getSession env sessionId st = (Returned session, st1)"
      and m: "m = shotMetadata session opts"
    by blast
  from getSession_Returned [OF ok get] obtain k
    where "sessions_ok env st1" "map_of (sessions st1) k = Some session"
    by blast
  then have "session_ok env st1 (k, session)"
    by (auto simp: sessions_ok_def list_all_iff dest: map_of_SomeD)
  then have cfg: "config session = browserConfig env"
    by (simp add: session_ok_def)
  have or_eq: "num_or (map_option f x) dflt
      = (if (\<exists>c. x = Some c \<and> f c \<noteq> 0) then f (the x) else dflt)" for f :: "'a \<Rightarrow> int" and x dflt
    by (cases x) simp_all
  show ?thesis
    by (simp only: m shotMetadata_def screenshotOptions_def cfg or_eq
        ShotOptions.simps ShotMetadata.simps Size.simps)
qed

text \<open>
  The claim as first stated fails for a clip whose width is zero: zero is falsy
  for \<^verbatim>\<open>||\<close>, so the width falls through to the viewport and, with none
  configured, to 1280, while the height is still the clip's.
\<close>

theorem screenshot_zero_clip_counterexample:
  "\<exists>d m st' c. screenshot quietEnv None zeroWidthClip initialState
        = (Returned (ShotSuccess d m), st')
      \<and> clip zeroWidthClip = Some c \<and> width c = 0 \<and> height c = 50
      \<and> viewport (browserConfig quietEnv) = None
      \<and> width m = 1280 \<and> height m = 50"
  by (simp add: screenshot_def screenshotTry_def getSession_def createSession_def initialize_def
      do_act_def do_ask_def record_call_def waitBeforeShot_def quietEnv_def zeroWidthClip_def
      noOptions_def initialState_def Let_def map_of_map_set shotMetadata_def
      screenshotOptions_def defaultViewport_def)

text \<open>A clip of 100 by 50 with no viewport configured: the metadata says 100 by 50.\<close>

theorem screenshot_metadata_from_options_witness:
  "\<exists>d m st'. screenshot quietEnv None smallClip initialState = (Returned (ShotSuccess d m), st')
      \<and> width m = 100 \<and> height m = 50"
proof -
  from quiet_screenshot obtain d m st'
    where shot: "screenshot quietEnv None smallClip initialState = (Returned (ShotSuccess d m), st')"
    by blast
  from screenshot_metadata_from_options [OF reachable.constructed shot]
  have "width m = 100 \<and> height m = 50"
    by (simp add: smallClip_def noOptions_def)
  with shot show ?thesis by blast
qed

end
